theory Spec2Isabelle
  imports Main "HOL-Library.Sublist"
begin

section \<open>Exceptions\<close>

text \<open>
  Every \<^verbatim>\<open>raise\<close> of \<^verbatim>\<open>main.py\<close> and of the collaborators it calls is a value:
  \<open>ValueError\<close> (the missing project, a value too large for the cache), \<open>KeyError\<close>
  (a cache read or delete of an absent or expired key), \<open>AttributeError\<close> (a record
  without the attribute read) and \<open>SDKError\<close> (whatever the Infisical SDK raises). An
  operation returns \<open>exn + 'a\<close>, with \<open>Inl\<close> for the exception.
\<close>

datatype exn = ValueError string | KeyError string | AttributeError string | SDKError string

section \<open>The time-expiring cache\<close>

text \<open>
  Modelled from the spec: the class \<^verbatim>\<open>TTLCache\<close> that \<^verbatim>\<open>LoadEnv.__init__\<close> instantiates
  (\<^verbatim>\<open>TTLCache(maxsize=100, ttl=3600)\<close>) is imported from \<^verbatim>\<open>cachetools\<close> and is not part
  of the sources. The model follows the spec's ScopedCache: a bounded store of entries
  (key, value, expiry time), where an entry stored at time \<open>T\<close> expires at \<open>T + ttl\<close>, an
  expired entry counts as absent on every read, a store first purges the expired entries
  and then, for a new key in a full cache, evicts the least recently used entry.
  The list \<open>links\<close> holds the entries from the least to the most recently used one.
  Time is a natural number of time units; a cache operation takes the time at which it
  runs.
\<close>

record TTLCache =
  maxsize :: nat
  ttl :: nat
  links :: "(string \<times> string \<times> nat) list"

text \<open>Modelled from the spec: \<^verbatim>\<open>TTLCache(maxsize=m, ttl=t)\<close>, the empty cache.\<close>

definition new_cache :: "nat \<Rightarrow> nat \<Rightarrow> TTLCache" where
  "new_cache m t = \<lparr>maxsize = m, ttl = t, links = []\<rparr>"

text \<open>Modelled from the spec: the entries left when a key is dropped.\<close>

definition remove_key :: "string \<Rightarrow> (string \<times> string \<times> nat) list \<Rightarrow> (string \<times> string \<times> nat) list" where
  "remove_key k xs = filter (\<lambda>x. fst x \<noteq> k) xs"

text \<open>Modelled from the spec: an entry is unexpired while the time is before its expiry.\<close>

definition live :: "nat \<Rightarrow> string \<times> string \<times> nat \<Rightarrow> bool" where
  "live now x = (now < snd (snd x))"

text \<open>
  Modelled from the spec: \<^verbatim>\<open>key in cache\<close> of the absent \<^verbatim>\<open>TTLCache\<close> (the spec's
  \<open>contains\<close>): present and unexpired; the order of use is not changed.
\<close>

definition contains :: "TTLCache \<Rightarrow> nat \<Rightarrow> string \<Rightarrow> bool" where
  "contains c now k =
     (case map_of (links c) k of None \<Rightarrow> False | Some (v, e) \<Rightarrow> now < e)"

text \<open>
  Modelled from the spec: \<^verbatim>\<open>cache[key]\<close> of the absent \<^verbatim>\<open>TTLCache\<close> (the spec's \<open>get\<close>):
  the entry becomes the most recently used one; an absent or expired key raises
  \<open>KeyError\<close>.
\<close>

definition getitem :: "TTLCache \<Rightarrow> nat \<Rightarrow> string \<Rightarrow> (exn + string) \<times> TTLCache" where
  "getitem c now k =
     (case map_of (links c) k of
        None \<Rightarrow> (Inl (KeyError k), c)
      | Some (v, e) \<Rightarrow>
          (let c' = c\<lparr>links := remove_key k (links c) @ [(k, v, e)]\<rparr>
           in if now < e then (Inr v, c') else (Inl (KeyError k), c')))"

text \<open>Modelled from the spec: the purge of the expired entries.\<close>

definition expire :: "TTLCache \<Rightarrow> nat \<Rightarrow> TTLCache" where
  "expire c now = c\<lparr>links := filter (live now) (links c)\<rparr>"

text \<open>
  Modelled from the spec: the eviction before a store into a full cache; entries are
  dropped, the least recently used first, while one more would exceed the capacity.
\<close>

fun shrink :: "nat \<Rightarrow> (string \<times> string \<times> nat) list \<Rightarrow> (string \<times> string \<times> nat) list" where
  "shrink m [] = []"
| "shrink m (x # xs) = (if length (x # xs) + 1 > m then shrink m xs else x # xs)"

text \<open>
  Modelled from the spec: \<^verbatim>\<open>cache[key] = value\<close> of the absent \<^verbatim>\<open>TTLCache\<close> (the spec's
  \<open>put\<close>) at time \<open>now\<close>: purge expired entries, refuse a value that can never fit
  (size 1 against capacity 0), make room for a new key, then store the entry with expiry
  \<open>now + ttl\<close> as the most recently used one.
\<close>

definition setitem :: "TTLCache \<Rightarrow> nat \<Rightarrow> string \<Rightarrow> string \<Rightarrow> (exn + unit) \<times> TTLCache" where
  "setitem c now k v =
     (let c1 = expire c now in
      if 1 > maxsize c1 then (Inl (ValueError ''value too large''), c1)
      else
        (let xs = (if map_of (links c1) k = None then shrink (maxsize c1) (links c1)
                   else links c1)
         in (Inr (), c1\<lparr>links := remove_key k xs @ [(k, v, now + ttl c1)]\<rparr>)))"

text \<open>
  Modelled from the spec: \<^verbatim>\<open>del cache[key]\<close> of the absent \<^verbatim>\<open>TTLCache\<close>: an absent key
  raises \<open>KeyError\<close>; an expired one is removed and raises \<open>KeyError\<close> as well.
\<close>

definition delitem :: "TTLCache \<Rightarrow> nat \<Rightarrow> string \<Rightarrow> (exn + unit) \<times> TTLCache" where
  "delitem c now k =
     (case map_of (links c) k of
        None \<Rightarrow> (Inl (KeyError k), c)
      | Some (v, e) \<Rightarrow>
          (let c' = c\<lparr>links := remove_key k (links c)\<rparr>
           in if now < e then (Inr (), c') else (Inl (KeyError k), c')))"

text \<open>
  Modelled from the spec: \<^verbatim>\<open>cache.keys()\<close> of the absent \<^verbatim>\<open>TTLCache\<close>: the keys of the
  unexpired entries.
\<close>

definition keys :: "TTLCache \<Rightarrow> nat \<Rightarrow> string list" where
  "keys c now = map fst (filter (live now) (links c))"

text \<open>Each key is stored once.\<close>

definition wf_cache :: "TTLCache \<Rightarrow> bool" where
  "wf_cache c = distinct (map fst (links c))"

section \<open>The remote capability\<close>

text \<open>
  The Infisical SDK is an external collaborator. A client object is a handle that
  remembers the credentials and the host it was built with; what the service answers
  to a call through a handle, at the time of the call, is given by a record \<open>remote\<close>
  that every operation takes as a parameter. A secret record may lack an attribute
  (\<^verbatim>\<open>hasattr\<close> is tested by \<^verbatim>\<open>get_all\<close>): \<open>None\<close> stands for the absent attribute.
\<close>

datatype sdk = SDK string string "string option"

record BaseSecret =
  secret_key :: "string option"
  secret_value :: "string option"

record create_opts =
  secret_comment :: "string option"
  skip_multiline_encoding :: bool
  secret_reminder_repeat_days :: "int option"
  secret_reminder_note :: "string option"

record update_opts = create_opts +
  new_value :: "string option"
  new_secret_name :: "string option"
  secret_metadata :: "string list option"
  tags_ids :: "string list option"

type_synonym descriptor = "(string \<times> string) list"

record remote =
  sdk_construct :: "string \<Rightarrow> string \<Rightarrow> string option \<Rightarrow> exn option"
  get_secret_by_name :: "sdk \<Rightarrow> string \<Rightarrow> string \<Rightarrow> string \<Rightarrow> string \<Rightarrow> exn + BaseSecret"
  sdk_list_secrets ::
    "sdk \<Rightarrow> string \<Rightarrow> string \<Rightarrow> string \<Rightarrow> bool \<Rightarrow> bool \<Rightarrow> bool \<Rightarrow> bool \<Rightarrow> string list
       \<Rightarrow> exn + BaseSecret list"
  create_secret_by_name ::
    "sdk \<Rightarrow> string \<Rightarrow> string \<Rightarrow> string \<Rightarrow> string \<Rightarrow> string \<Rightarrow> create_opts \<Rightarrow> exn + descriptor"
  update_secret_by_name ::
    "sdk \<Rightarrow> string \<Rightarrow> string \<Rightarrow> string \<Rightarrow> string \<Rightarrow> update_opts \<Rightarrow> exn + unit"

text \<open>\<^verbatim>\<open>_SDK(client_id=..., client_secret=..., host=...)\<close>: the construction may raise.\<close>

definition new_SDK :: "remote \<Rightarrow> string \<Rightarrow> string \<Rightarrow> string option \<Rightarrow> exn + sdk" where
  "new_SDK r cid cs h =
     (case sdk_construct r cid cs h of Some e \<Rightarrow> Inl e | None \<Rightarrow> Inr (SDK cid cs h))"

text \<open>
  What an operation does to its surroundings, in order: each access to the cache and
  each use of the SDK (a construction or a call, with the arguments passed).
\<close>

datatype event =
    CacheContains string
  | CacheGet string
  | CacheSet string
  | CacheKeys
  | CacheDel string
  | NewSDK string string
  | GetSecretByName sdk string string string string
  | ListSecrets sdk string string string bool bool bool bool "string list"
  | CreateSecretByName sdk string string string string string create_opts
  | UpdateSecretByName sdk string string string string update_opts

fun is_remote :: "event \<Rightarrow> bool" where
  "is_remote (CacheContains k) = False"
| "is_remote (CacheGet k) = False"
| "is_remote (CacheSet k) = False"
| "is_remote CacheKeys = False"
| "is_remote (CacheDel k) = False"
| "is_remote e = True"

record 'a outcome =
  result :: "exn + 'a"
  cache_after :: TTLCache
  trace :: "event list"

section \<open>LoadEnv\<close>

record LoadEnv =
  cache :: TTLCache
  default_client_id :: string
  default_client_secret :: string
  project_id :: "string option"
  environment_slug :: string
  secret_path :: string
  client :: sdk

text \<open>Python's truth of an optional string, and \<^verbatim>\<open>x or d\<close>.\<close>

definition truthy :: "string option \<Rightarrow> bool" where
  "truthy x = (case x of None \<Rightarrow> False | Some s \<Rightarrow> s \<noteq> [])"

definition or_else :: "string option \<Rightarrow> string \<Rightarrow> string" where
  "or_else x d = (case x of None \<Rightarrow> d | Some s \<Rightarrow> if s \<noteq> [] then s else d)"

text \<open>\<^verbatim>\<open>os.getenv(name, default)\<close> on the process environment.\<close>

definition getenv :: "(string \<rightharpoonup> string) \<Rightarrow> string \<Rightarrow> string \<Rightarrow> string" where
  "getenv environ name d = (case environ name of None \<Rightarrow> d | Some v \<Rightarrow> v)"

definition default_host :: string where
  "default_host = ''https://app.infisical.com''"

text \<open>\<^verbatim>\<open>LoadEnv.__init__\<close>, lines 46 to 70.\<close>

definition init :: "remote \<Rightarrow> (string \<rightharpoonup> string) \<Rightarrow> string option \<Rightarrow> string option \<Rightarrow> string \<Rightarrow> exn + LoadEnv" where
  "init r environ machine_identity_client_id machine_identity_client_secret host =
     (let cid = or_else machine_identity_client_id (getenv environ ''INFISICAL_MACHINE_ID'' []);
          cs = or_else machine_identity_client_secret (getenv environ ''INFISICAL_SECRET_KEY'' [])
      in case new_SDK r cid cs (Some host) of
           Inl e \<Rightarrow> Inl e
         | Inr s \<Rightarrow> Inr \<lparr>cache = new_cache 100 3600,
                        default_client_id = cid,
                        default_client_secret = cs,
                        project_id = environ ''INFISICAL_PROJECT_ID'',
                        environment_slug = getenv environ ''INFISICAL_ENVIRONMENT'' ''dev'',
                        secret_path = getenv environ ''INFISICAL_SECRET_PATH'' ''/'',
                        client = s\<rparr>)"

text \<open>\<^verbatim>\<open>LoadEnv._key\<close>, line 74: \<^verbatim>\<open>f"{project_id}:{environment}:{path}"\<close>.\<close>

definition LoadEnv_key :: "string \<Rightarrow> string \<Rightarrow> string \<Rightarrow> string" where
  "LoadEnv_key project environment path = project @ '':'' @ environment @ '':'' @ path"

text \<open>Line 107: \<^verbatim>\<open>cache_key = f"{self._key(project_id, env, path)}:{key}"\<close>.\<close>

definition cache_key :: "string \<Rightarrow> string \<Rightarrow> string \<Rightarrow> string \<Rightarrow> string" where
  "cache_key project environment path key = LoadEnv_key project environment path @ '':'' @ key"

text \<open>
  The head of every operation: \<^verbatim>\<open>project_id = project or self.project_id\<close>, then
  \<^verbatim>\<open>if not project_id: raise ValueError(...)\<close>. \<open>None\<close> is the raise.
\<close>

definition resolve_project :: "string option \<Rightarrow> string option \<Rightarrow> string option" where
  "resolve_project project dflt =
     (let p = (if truthy project then project else dflt)
      in if truthy p then p else None)"

definition missing_project :: exn where
  "missing_project = ValueError ''Project ID must be provided or set via INFISICAL_PROJECT_ID''"

text \<open>
  A keyword argument left out of a call takes the default of the signature:
  \<^verbatim>\<open>env: Environment = "dev"\<close> and, in \<^verbatim>\<open>get\<close>, \<^verbatim>\<open>get_all\<close> and \<^verbatim>\<open>list_secrets\<close>,
  \<^verbatim>\<open>path: str = ""\<close>. \<open>None\<close> is the argument left out.
\<close>

text \<open>\<^verbatim>\<open>xs or []\<close> on an optional list.\<close>

definition list_or_empty :: "string list option \<Rightarrow> string list" where
  "list_or_empty xs = (case xs of None \<Rightarrow> [] | Some ys \<Rightarrow> ys)"

definition env_arg :: "string option \<Rightarrow> string" where
  "env_arg env = (case env of None \<Rightarrow> ''dev'' | Some e \<Rightarrow> e)"

definition path_arg :: "string option \<Rightarrow> string" where
  "path_arg path = (case path of None \<Rightarrow> [] | Some p \<Rightarrow> p)"

section \<open>The operations\<close>

text \<open>
  Each operation takes the facade, the remote behaviour at the time of the call and its
  arguments, and returns its result, the cache it leaves and the trace of what it did.
  The cache reads the clock each time it is used: in \<^verbatim>\<open>get\<close>, \<open>t0\<close> is the time of the
  membership test of line 110, \<open>t_read\<close> the time of the read of line 112 that follows
  a successful test, and \<open>t1\<close> the time of the store of line 135 after the awaited
  fetch. In \<^verbatim>\<open>create_secret\<close> and \<^verbatim>\<open>update_secret\<close>, \<open>now\<close> is the time of the
  invalidation after the awaited write; its listings and deletions run back to back and
  are all taken at that time.
\<close>

text \<open>Lines 118 to 124: a one-shot client when a credential override is given.\<close>

definition choose_sdk :: "LoadEnv \<Rightarrow> remote \<Rightarrow> string option \<Rightarrow> string option \<Rightarrow> (exn + sdk) \<times> event list" where
  "choose_sdk self r client_id client_secret =
     (if truthy client_id \<or> truthy client_secret
      then (let cid = or_else client_id (default_client_id self);
                cs = or_else client_secret (default_client_secret self)
            in (new_SDK r cid cs None, [NewSDK cid cs]))
      else (Inr (client self), []))"

text \<open>\<^verbatim>\<open>LoadEnv.get\<close>, lines 103 to 141.\<close>

definition get ::
  "LoadEnv \<Rightarrow> remote \<Rightarrow> string \<Rightarrow> string option \<Rightarrow> string option \<Rightarrow> string option
     \<Rightarrow> string option \<Rightarrow> string option \<Rightarrow> nat \<Rightarrow> nat \<Rightarrow> nat \<Rightarrow> string outcome" where
  "get self r key project env path client_id client_secret t0 t_read t1 =
     (case resolve_project project (project_id self) of
        None \<Rightarrow> \<lparr>result = Inl missing_project, cache_after = cache self, trace = []\<rparr>
      | Some pid \<Rightarrow>
          (let k = cache_key pid (env_arg env) (path_arg path) key in
           if contains (cache self) t0 k
           then (case getitem (cache self) t_read k of
                   (res, c') \<Rightarrow>
                     \<lparr>result = res, cache_after = c',
                      trace = [CacheContains k, CacheGet k]\<rparr>)
           else
             (case choose_sdk self r client_id client_secret of
                (Inl e, tr) \<Rightarrow>
                  \<lparr>result = Inl e, cache_after = cache self,
                   trace = CacheContains k # tr\<rparr>
              | (Inr s, tr) \<Rightarrow>
                  (let p = (if path_arg path \<noteq> [] then path_arg path else secret_path self);
                       tr' = CacheContains k # tr @ [GetSecretByName s key pid (env_arg env) p]
                   in case get_secret_by_name r s key pid (env_arg env) p of
                        Inl e \<Rightarrow> \<lparr>result = Inl e, cache_after = cache self, trace = tr'\<rparr>
                      | Inr secret \<Rightarrow>
                          (case secret_value secret of
                             None \<Rightarrow>
                               \<lparr>result = Inl (AttributeError ''secret_value''),
                                cache_after = cache self, trace = tr'\<rparr>
                           | Some v \<Rightarrow>
                               (case setitem (cache self) t1 k v of
                                  (Inl e, c') \<Rightarrow>
                                    \<lparr>result = Inl e, cache_after = c',
                                     trace = tr' @ [CacheSet k]\<rparr>
                                | (Inr u, c') \<Rightarrow>
                                    \<lparr>result = Inr v, cache_after = c',
                                     trace = tr' @ [CacheSet k]\<rparr>))))))"

text \<open>A Python dictionary as an association list: \<^verbatim>\<open>d[k] = v\<close>.\<close>

fun dict_set :: "(string \<times> string) list \<Rightarrow> string \<Rightarrow> string \<Rightarrow> (string \<times> string) list" where
  "dict_set [] k v = [(k, v)]"
| "dict_set ((k', v') # d) k v = (if k' = k then (k', v) # d else (k', v') # dict_set d k v)"

text \<open>Lines 181 to 184: the records with both attributes, by name.\<close>

fun collect :: "(string \<times> string) list \<Rightarrow> BaseSecret list \<Rightarrow> (string \<times> string) list" where
  "collect d [] = d"
| "collect d (s # ss) =
     (case secret_key s of
        None \<Rightarrow> collect d ss
      | Some k \<Rightarrow> (case secret_value s of
                    None \<Rightarrow> collect d ss
                  | Some v \<Rightarrow> collect (dict_set d k v) ss))"

text \<open>\<^verbatim>\<open>LoadEnv.get_all\<close>, lines 163 to 191.\<close>

definition get_all ::
  "LoadEnv \<Rightarrow> remote \<Rightarrow> string option \<Rightarrow> string option \<Rightarrow> string option
     \<Rightarrow> ((string \<times> string) list) outcome" where
  "get_all self r project env path =
     (case resolve_project project (project_id self) of
        None \<Rightarrow> \<lparr>result = Inl missing_project, cache_after = cache self, trace = []\<rparr>
      | Some pid \<Rightarrow>
          (let p = (if path_arg path \<noteq> [] then path_arg path else secret_path self);
               tr = [ListSecrets (client self) pid (env_arg env) p True True False True []]
           in case sdk_list_secrets r (client self) pid (env_arg env) p True True False True [] of
                Inl e \<Rightarrow> \<lparr>result = Inl e, cache_after = cache self, trace = tr\<rparr>
              | Inr secrets_list \<Rightarrow>
                  \<lparr>result = Inr (collect [] secrets_list), cache_after = cache self, trace = tr\<rparr>))"

text \<open>\<^verbatim>\<open>LoadEnv.list_secrets\<close>, lines 223 to 246.\<close>

definition list_secrets ::
  "LoadEnv \<Rightarrow> remote \<Rightarrow> string option \<Rightarrow> string option \<Rightarrow> string option
     \<Rightarrow> bool \<Rightarrow> bool \<Rightarrow> bool \<Rightarrow> bool \<Rightarrow> string list option \<Rightarrow> (BaseSecret list) outcome" where
  "list_secrets self r project env path expand_secret_references view_secret_value
       recursive include_imports tag_filters =
     (case resolve_project project (project_id self) of
        None \<Rightarrow> \<lparr>result = Inl missing_project, cache_after = cache self, trace = []\<rparr>
      | Some pid \<Rightarrow>
          (let p = (if path_arg path \<noteq> [] then path_arg path else secret_path self);
               tags = (case tag_filters of None \<Rightarrow> [] | Some ts \<Rightarrow> ts)
           in \<lparr>result = sdk_list_secrets r (client self) pid (env_arg env) p
                          expand_secret_references view_secret_value recursive include_imports tags,
               cache_after = cache self,
               trace = [ListSecrets (client self) pid (env_arg env) p
                          expand_secret_references view_secret_value recursive include_imports tags]\<rparr>))"

text \<open>Lines 305 and 306: \<^verbatim>\<open>for k in keys_to_remove: del self._cache[k]\<close>.\<close>

fun del_keys :: "TTLCache \<Rightarrow> nat \<Rightarrow> string list \<Rightarrow> (exn + unit) \<times> TTLCache \<times> event list" where
  "del_keys c now [] = (Inr (), c, [])"
| "del_keys c now (k # ks) =
     (case delitem c now k of
        (Inl e, c') \<Rightarrow> (Inl e, c', [CacheDel k])
      | (Inr u, c') \<Rightarrow>
          (case del_keys c' now ks of (res, c'', tr) \<Rightarrow> (res, c'', CacheDel k # tr)))"

text \<open>
  Lines 302 to 306 (and 375 to 379): for each path to invalidate, the keys that start
  with the prefix of the scope are collected, then deleted.
\<close>

fun invalidate :: "TTLCache \<Rightarrow> nat \<Rightarrow> string \<Rightarrow> string \<Rightarrow> string list \<Rightarrow> (exn + unit) \<times> TTLCache \<times> event list" where
  "invalidate c now pid env [] = (Inr (), c, [])"
| "invalidate c now pid env (path_to_check # ps) =
     (let cache_prefix = LoadEnv_key pid env path_to_check;
          keys_to_remove = filter (prefix cache_prefix) (keys c now)
      in case del_keys c now keys_to_remove of
           (Inl e, c', tr) \<Rightarrow> (Inl e, c', CacheKeys # tr)
         | (Inr u, c', tr) \<Rightarrow>
             (case invalidate c' now pid env ps of
                (res, c'', tr') \<Rightarrow> (res, c'', CacheKeys # tr @ tr')))"

text \<open>\<^verbatim>\<open>LoadEnv.create_secret\<close>, lines 280 to 313.\<close>

definition create_secret ::
  "LoadEnv \<Rightarrow> remote \<Rightarrow> string \<Rightarrow> string \<Rightarrow> string option \<Rightarrow> string option \<Rightarrow> string option
     \<Rightarrow> create_opts \<Rightarrow> nat \<Rightarrow> descriptor outcome" where
  "create_secret self r secret_name secret_val project env path opts now =
     (case resolve_project project (project_id self) of
        None \<Rightarrow> \<lparr>result = Inl missing_project, cache_after = cache self, trace = []\<rparr>
      | Some pid \<Rightarrow>
          (let p = or_else path (secret_path self);
               tr = [CreateSecretByName (client self) secret_name secret_val pid p (env_arg env) opts]
           in case create_secret_by_name r (client self) secret_name secret_val pid p (env_arg env) opts of
                Inl e \<Rightarrow> \<lparr>result = Inl e, cache_after = cache self, trace = tr\<rparr>
              | Inr res \<Rightarrow>
                  (case invalidate (cache self) now pid (env_arg env) [p, []] of
                     (Inl e, c', tr') \<Rightarrow> \<lparr>result = Inl e, cache_after = c', trace = tr @ tr'\<rparr>
                   | (Inr u, c', tr') \<Rightarrow> \<lparr>result = Inr res, cache_after = c', trace = tr @ tr'\<rparr>)))"

text \<open>\<^verbatim>\<open>LoadEnv.update_secret\<close>, lines 350 to 385.\<close>

definition update_secret ::
  "LoadEnv \<Rightarrow> remote \<Rightarrow> string \<Rightarrow> string option \<Rightarrow> string option \<Rightarrow> string option
     \<Rightarrow> update_opts \<Rightarrow> nat \<Rightarrow> unit outcome" where
  "update_secret self r current_secret_name project env path opts now =
     (case resolve_project project (project_id self) of
        None \<Rightarrow> \<lparr>result = Inl missing_project, cache_after = cache self, trace = []\<rparr>
      | Some pid \<Rightarrow>
          (let p = or_else path (secret_path self);
               opts' = opts\<lparr>secret_metadata := Some (list_or_empty (secret_metadata opts)),
                           tags_ids := Some (list_or_empty (tags_ids opts))\<rparr>;
               tr = [UpdateSecretByName (client self) current_secret_name pid p (env_arg env) opts']
           in case update_secret_by_name r (client self) current_secret_name pid p (env_arg env) opts' of
                Inl e \<Rightarrow> \<lparr>result = Inl e, cache_after = cache self, trace = tr\<rparr>
              | Inr res \<Rightarrow>
                  (case invalidate (cache self) now pid (env_arg env) [p, []] of
                     (Inl e, c', tr') \<Rightarrow> \<lparr>result = Inl e, cache_after = c', trace = tr @ tr'\<rparr>
                   | (Inr u, c', tr') \<Rightarrow> \<lparr>result = Inr (), cache_after = c', trace = tr @ tr'\<rparr>)))"

text \<open>\<^verbatim>\<open>LoadEnv.secret_by_name\<close>, lines 409 to 428.\<close>

definition secret_by_name ::
  "LoadEnv \<Rightarrow> remote \<Rightarrow> string \<Rightarrow> string option \<Rightarrow> string option \<Rightarrow> string option
     \<Rightarrow> BaseSecret outcome" where
  "secret_by_name self r secret_name project env path =
     (case resolve_project project (project_id self) of
        None \<Rightarrow> \<lparr>result = Inl missing_project, cache_after = cache self, trace = []\<rparr>
      | Some pid \<Rightarrow>
          (let p = or_else path (secret_path self)
           in \<lparr>result = get_secret_by_name r (client self) secret_name pid (env_arg env) p,
               cache_after = cache self,
               trace = [GetSecretByName (client self) secret_name pid (env_arg env) p]\<rparr>))"

section \<open>Sequences of operations\<close>

text \<open>
  A call of one of the six operations with its arguments; \<open>run\<close> applies a sequence of
  calls to a facade, each against the remote behaviour of its moment, and keeps the
  cache from one call to the next (the other fields are never written).
\<close>

datatype call =
    CallGet string "string option" "string option" "string option" "string option" "string option" nat nat nat
  | CallGetAll "string option" "string option" "string option"
  | CallListSecrets "string option" "string option" "string option" bool bool bool bool "string list option"
  | CallCreateSecret string string "string option" "string option" "string option" create_opts nat
  | CallUpdateSecret string "string option" "string option" "string option" update_opts nat
  | CallSecretByName string "string option" "string option" "string option"

fun step_cache :: "LoadEnv \<Rightarrow> remote \<Rightarrow> call \<Rightarrow> TTLCache" where
  "step_cache self r (CallGet key project env path cid cs t0 t_read t1) =
     cache_after (get self r key project env path cid cs t0 t_read t1)"
| "step_cache self r (CallGetAll project env path) =
     cache_after (get_all self r project env path)"
| "step_cache self r (CallListSecrets project env path ex vw rc im tags) =
     cache_after (list_secrets self r project env path ex vw rc im tags)"
| "step_cache self r (CallCreateSecret name val project env path opts now) =
     cache_after (create_secret self r name val project env path opts now)"
| "step_cache self r (CallUpdateSecret name project env path opts now) =
     cache_after (update_secret self r name project env path opts now)"
| "step_cache self r (CallSecretByName name project env path) =
     cache_after (secret_by_name self r name project env path)"

fun run :: "LoadEnv \<Rightarrow> (remote \<times> call) list \<Rightarrow> LoadEnv" where
  "run self [] = self"
| "run self ((r, c) # cs) = run (self\<lparr>cache := step_cache self r c\<rparr>) cs"

text \<open>A sequence of stores (time, key, value) into a cache.\<close>

fun store_all :: "TTLCache \<Rightarrow> (nat \<times> string \<times> string) list \<Rightarrow> TTLCache" where
  "store_all c [] = c"
| "store_all c ((now, k, v) # xs) = store_all (snd (setitem c now k v)) xs"

text \<open>The capacity bound: no more entries resident than \<open>maxsize\<close>.\<close>

definition bounded :: "TTLCache \<Rightarrow> bool" where
  "bounded c = (length (links c) \<le> maxsize c)"

text \<open>A scope component without the delimiter of the cache keys.\<close>

definition colon_free :: "string \<Rightarrow> bool" where
  "colon_free s = (CHR '':'' \<notin> set s)"

section \<open>Concrete inputs\<close>

text \<open>
  A remote service that answers every call, a process environment that sets a project
  and the environment \<^verbatim>\<open>staging\<close>, and facades built on them.
\<close>

definition example_remote :: remote where
  "example_remote =
     \<lparr>sdk_construct = (\<lambda>cid cs h. None),
      get_secret_by_name = (\<lambda>s n p e pa. Inr \<lparr>secret_key = Some n, secret_value = Some ''fresh_value''\<rparr>),
      sdk_list_secrets = (\<lambda>s p e pa a b c d ts. Inr []),
      create_secret_by_name = (\<lambda>s n v p pa e os. Inr [(''secretKey'', n)]),
      update_secret_by_name = (\<lambda>s n p pa e os. Inr ())\<rparr>"

definition failing_remote :: remote where
  "failing_remote =
     \<lparr>sdk_construct = (\<lambda>cid cs h. None),
      get_secret_by_name = (\<lambda>s n p e pa. Inl (SDKError ''SDK error'')),
      sdk_list_secrets = (\<lambda>s p e pa a b c d ts. Inl (SDKError ''SDK error'')),
      create_secret_by_name = (\<lambda>s n v p pa e os. Inl (SDKError ''SDK error'')),
      update_secret_by_name = (\<lambda>s n p pa e os. Inl (SDKError ''SDK error''))\<rparr>"

definition example_client :: sdk where
  "example_client = SDK ''test_client_id'' ''test_client_secret'' (Some default_host)"

definition example_facade :: "TTLCache \<Rightarrow> LoadEnv" where
  "example_facade c =
     \<lparr>cache = c, default_client_id = ''test_client_id'',
      default_client_secret = ''test_client_secret'', project_id = None,
      environment_slug = ''dev'', secret_path = ''/'', client = example_client\<rparr>"

definition staging_environ :: "string \<rightharpoonup> string" where
  "staging_environ =
     map_of [(''INFISICAL_PROJECT_ID'', ''test_project''), (''INFISICAL_ENVIRONMENT'', ''staging'')]"

definition staging_facade :: LoadEnv where
  "staging_facade =
     \<lparr>cache = new_cache 100 3600, default_client_id = ''test_client_id'',
      default_client_secret = ''test_client_secret'', project_id = Some ''test_project'',
      environment_slug = ''staging'', secret_path = ''/'', client = example_client\<rparr>"

definition no_opts :: create_opts where
  "no_opts = \<lparr>secret_comment = None, skip_multiline_encoding = False,
              secret_reminder_repeat_days = None, secret_reminder_note = None\<rparr>"

definition no_update_opts :: update_opts where
  "no_update_opts = \<lparr>secret_comment = None, skip_multiline_encoding = False,
      secret_reminder_repeat_days = None, secret_reminder_note = None,
      new_value = Some ''new_value'', new_secret_name = None,
      secret_metadata = None, tags_ids = None\<rparr>"

definition seeded_cache :: TTLCache where
  "seeded_cache =
     \<lparr>maxsize = 100, ttl = 3600,
      links = [(''test_project:dev::TEST_SECRET'', ''cached_value'', 3600)]\<rparr>"

definition two_paths_cache :: TTLCache where
  "two_paths_cache =
     \<lparr>maxsize = 100, ttl = 3600,
      links = [(''test_project:dev::TEST_SECRET'', ''cached_value'', 3600),
               (''test_project:dev:/other:OTHER_SECRET'', ''other_value'', 3600),
               (''test_project:prod:/app:APP_SECRET'', ''prod_value'', 3600)]\<rparr>"

section \<open>Properties of the cache\<close>

lemma contains_lookup:
  "contains c now k \<longleftrightarrow> (\<exists>v e. map_of (links c) k = Some (v, e) \<and> now < e)"
  by (auto simp: contains_def split: option.splits)

lemma getitem_live:
  "map_of (links c) k = Some (v, e) \<Longrightarrow> now < e \<Longrightarrow>
     getitem c now k = (Inr v, c\<lparr>links := remove_key k (links c) @ [(k, v, e)]\<rparr>)"
  by (simp add: getitem_def)

section \<open>Missing project\<close>

lemma resolve_project_None:
  "\<not> truthy project \<Longrightarrow> \<not> truthy dflt \<Longrightarrow> resolve_project project dflt = None"
  by (simp add: resolve_project_def)

lemma resolve_project_override:
  "resolve_project (Some ''test_project'') dflt = Some ''test_project''"
  by (simp add: resolve_project_def truthy_def)

text \<open>
  C3. An operation called with no project, on a facade without a default project,
  raises the missing-scope error (a \<open>ValueError\<close>); its trace is empty, so neither the
  cache nor the remote service was touched, and the cache is the one it started with.
\<close>

theorem missing_project_fails_closed:
  assumes "\<not> truthy project" and "\<not> truthy (project_id self)"
  shows "get self r key project env path client_id client_secret t0 t_read t1
           = \<lparr>result = Inl missing_project, cache_after = cache self, trace = []\<rparr>
       \<and> get_all self r project env path
           = \<lparr>result = Inl missing_project, cache_after = cache self, trace = []\<rparr>
       \<and> list_secrets self r project env path ex vw rc im tags
           = \<lparr>result = Inl missing_project, cache_after = cache self, trace = []\<rparr>
       \<and> create_secret self r name val project env opath copts now
           = \<lparr>result = Inl missing_project, cache_after = cache self, trace = []\<rparr>
       \<and> update_secret self r name project env opath uopts now
           = \<lparr>result = Inl missing_project, cache_after = cache self, trace = []\<rparr>
       \<and> secret_by_name self r name project env opath
           = \<lparr>result = Inl missing_project, cache_after = cache self, trace = []\<rparr>"
  using assms
  by (simp add: resolve_project_None get_def get_all_def list_secrets_def create_secret_def
        update_secret_def secret_by_name_def)

theorem missing_project_fails_closed_witness:
  "\<not> truthy None \<and> \<not> truthy (project_id (example_facade seeded_cache))
   \<and> result (get (example_facade seeded_cache) example_remote ''TEST_SECRET'' None None None None None 10 10 11)
       = Inl (ValueError ''Project ID must be provided or set via INFISICAL_PROJECT_ID'')
   \<and> trace (get (example_facade seeded_cache) example_remote ''TEST_SECRET'' None None None None None 10 10 11) = []
   \<and> trace (create_secret (example_facade seeded_cache) example_remote ''NEW_SECRET'' ''v'' None None None no_opts 10) = []
   \<and> cache_after (create_secret (example_facade seeded_cache) example_remote ''NEW_SECRET'' ''v'' None None None no_opts 10)
       = seeded_cache"
proof -
  have h: "\<not> truthy None" "\<not> truthy (project_id (example_facade seeded_cache))"
    by (simp_all add: truthy_def example_facade_def)
  show ?thesis
    using h missing_project_fails_closed[OF h, of example_remote "''TEST_SECRET''" None None None None 10 10 11
        True True False True None "''NEW_SECRET''" "''v''" None no_opts 10 no_update_opts]
    by (simp add: missing_project_def example_facade_def)
qed

section \<open>Cache hits\<close>

lemma get_hit:
  assumes "resolve_project project (project_id self) = Some pid"
    and "map_of (links (cache self)) (cache_key pid (env_arg env) (path_arg path) key) = Some (v, e)"
    and "t0 < e" and "t_read < e"
  shows "get self r key project env path client_id client_secret t0 t_read t1
      = \<lparr>result = Inr v,
         cache_after = (cache self)\<lparr>links :=
            remove_key (cache_key pid (env_arg env) (path_arg path) key) (links (cache self))
              @ [(cache_key pid (env_arg env) (path_arg path) key, v, e)]\<rparr>,
         trace = [CacheContains (cache_key pid (env_arg env) (path_arg path) key),
                  CacheGet (cache_key pid (env_arg env) (path_arg path) key)]\<rparr>"
proof -
  have c: "contains (cache self) t0 (cache_key pid (env_arg env) (path_arg path) key)"
    using assms(2,3) by (auto simp: contains_lookup)
  show ?thesis
    using c getitem_live[OF assms(2,4)] by (simp add: get_def assms(1) Let_def)
qed

text \<open>
  The test of line 110 and the read of line 112 are two uses of the cache. An entry that
  is unexpired at the test and expired at the read makes the read raise \<open>KeyError\<close>,
  outside the \<^verbatim>\<open>try\<close> block: \<open>get\<close> fails, without any use of the SDK.
\<close>

lemma get_expires_between:
  assumes "resolve_project project (project_id self) = Some pid"
    and "map_of (links (cache self)) (cache_key pid (env_arg env) (path_arg path) key) = Some (v, e)"
    and "t0 < e" and "e \<le> t_read"
  shows "result (get self r key project env path client_id client_secret t0 t_read t1)
           = Inl (KeyError (cache_key pid (env_arg env) (path_arg path) key))"
    and "filter is_remote (trace (get self r key project env path client_id client_secret t0 t_read t1)) = []"
proof -
  have c: "contains (cache self) t0 (cache_key pid (env_arg env) (path_arg path) key)"
    using assms(2,3) by (auto simp: contains_lookup)
  have g: "getitem (cache self) t_read (cache_key pid (env_arg env) (path_arg path) key)
      = (Inl (KeyError (cache_key pid (env_arg env) (path_arg path) key)),
         (cache self)\<lparr>links :=
            remove_key (cache_key pid (env_arg env) (path_arg path) key) (links (cache self))
              @ [(cache_key pid (env_arg env) (path_arg path) key, v, e)]\<rparr>)"
    using assms(2,4) by (simp add: getitem_def Let_def)
  show "result (get self r key project env path client_id client_secret t0 t_read t1)
           = Inl (KeyError (cache_key pid (env_arg env) (path_arg path) key))"
    using c g by (simp add: get_def assms(1) Let_def)
  show "filter is_remote (trace (get self r key project env path client_id client_secret t0 t_read t1)) = []"
    using c g by (simp add: get_def assms(1) Let_def)
qed

lemma get_first_event:
  "resolve_project project (project_id self) = Some pid \<Longrightarrow>
   hd (trace (get self r name project env path client_id client_secret t0 t_read t1))
        = CacheContains (cache_key pid (env_arg env) (path_arg path) name)"
  unfolding get_def Let_def
  by (simp split: prod.splits sum.splits option.splits)

lemma scenario_key:
  "cache_key ''test_project'' (env_arg None) (path_arg None) ''TEST_SECRET''
     = ''test_project:dev::TEST_SECRET''"
  "cache_key ''test_project'' (env_arg (Some ''dev'')) (path_arg (Some [])) ''TEST_SECRET''
     = ''test_project:dev::TEST_SECRET''"
  by (simp_all add: LoadEnv_key_def env_arg_def path_arg_def cache_key_def)

text \<open>
  C2. When the key computed for a call of \<open>get\<close> is present in the cache and
  unexpired, at the time of the membership test and at the time of the read that follows
  it, \<open>get\<close> returns the value stored under that key and its trace holds no use of the
  SDK.
\<close>

theorem cache_hit_avoids_remote:
  assumes "resolve_project project (project_id self) = Some pid"
    and "contains (cache self) t0 (cache_key pid (env_arg env) (path_arg path) key)"
    and "contains (cache self) t_read (cache_key pid (env_arg env) (path_arg path) key)"
  shows "\<exists>v e. map_of (links (cache self)) (cache_key pid (env_arg env) (path_arg path) key) = Some (v, e)
           \<and> result (get self r key project env path client_id client_secret t0 t_read t1) = Inr v
           \<and> filter is_remote (trace (get self r key project env path client_id client_secret t0 t_read t1)) = []"
proof -
  from assms(2) obtain v e
    where l: "map_of (links (cache self)) (cache_key pid (env_arg env) (path_arg path) key) = Some (v, e)"
      and t: "t0 < e"
    by (auto simp: contains_lookup)
  have t': "t_read < e"
    using assms(3) l by (auto simp: contains_lookup)
  show ?thesis
    using l by (simp add: get_hit[OF assms(1) l t t'])
qed

theorem cache_hit_avoids_remote_witness:
  "resolve_project (Some ''test_project'') (project_id (example_facade seeded_cache)) = Some ''test_project''
   \<and> contains (cache (example_facade seeded_cache)) 10 ''test_project:dev::TEST_SECRET''
   \<and> result (get (example_facade seeded_cache) failing_remote ''TEST_SECRET'' (Some ''test_project'')
        None None None None 10 10 11) = Inr ''cached_value''
   \<and> filter is_remote (trace (get (example_facade seeded_cache) failing_remote ''TEST_SECRET''
        (Some ''test_project'') None None None None 10 10 11)) = []"
proof -
  have rp: "resolve_project (Some ''test_project'') (project_id (example_facade seeded_cache)) = Some ''test_project''"
    by (rule resolve_project_override)
  have c: "contains (cache (example_facade seeded_cache)) 10 ''test_project:dev::TEST_SECRET''"
    by (simp add: contains_def example_facade_def seeded_cache_def)
  have c': "contains (cache (example_facade seeded_cache)) 10
      (cache_key ''test_project'' (env_arg None) (path_arg None) ''TEST_SECRET'')"
    using c by (simp only: scenario_key)
  have l: "map_of (links (cache (example_facade seeded_cache)))
      (cache_key ''test_project'' (env_arg None) (path_arg None) ''TEST_SECRET'') = Some (v, e)
      \<Longrightarrow> v = ''cached_value''" for v e
    by (simp add: scenario_key example_facade_def seeded_cache_def)
  show ?thesis
    using rp c l cache_hit_avoids_remote[OF rp c' c', of failing_remote None None 11]
    by blast
qed

text \<open>
  C4. The first thing \<open>get\<close> does with a resolved project is to look up the key made of
  project, environment and path joined by colons, then a colon and the name. For the
  scenario of the spec the key is \<^verbatim>\<open>test_project:dev::TEST_SECRET\<close>, and with an
  entry at this key that is unexpired at the membership test and at the read, \<open>get\<close>
  returns its value without using the SDK.
\<close>

theorem cache_key_scenario:
  "(resolve_project project (project_id self) = Some pid \<longrightarrow>
      hd (trace (get self r name project env path client_id client_secret t0 t_read t1))
        = CacheContains (pid @ '':'' @ env_arg env @ '':'' @ path_arg path @ '':'' @ name))
   \<and> cache_key ''test_project'' ''dev'' [] ''TEST_SECRET'' = ''test_project:dev::TEST_SECRET''
   \<and> (map_of (links (cache self)) ''test_project:dev::TEST_SECRET'' = Some (v, e) \<and> t0 < e \<and> t_read < e \<longrightarrow>
        result (get self r ''TEST_SECRET'' (Some ''test_project'') (Some ''dev'') (Some []) client_id client_secret t0 t_read t1) = Inr v
      \<and> filter is_remote (trace (get self r ''TEST_SECRET'' (Some ''test_project'') (Some ''dev'') (Some []) client_id client_secret t0 t_read t1)) = [])"
proof (intro conjI impI)
  assume "resolve_project project (project_id self) = Some pid"
  then show "hd (trace (get self r name project env path client_id client_secret t0 t_read t1))
        = CacheContains (pid @ '':'' @ env_arg env @ '':'' @ path_arg path @ '':'' @ name)"
    by (simp add: get_first_event LoadEnv_key_def cache_key_def)
next
  show "cache_key ''test_project'' ''dev'' [] ''TEST_SECRET'' = ''test_project:dev::TEST_SECRET''"
    by (simp add: LoadEnv_key_def cache_key_def)
next
  assume a: "map_of (links (cache self)) ''test_project:dev::TEST_SECRET'' = Some (v, e) \<and> t0 < e \<and> t_read < e"
  have l: "map_of (links (cache self)) (cache_key ''test_project'' (env_arg (Some ''dev'')) (path_arg (Some [])) ''TEST_SECRET'') = Some (v, e)"
    using a by (simp only: scenario_key)
  have t: "t0 < e" and t': "t_read < e"
    using a by simp_all
  note h = get_hit[OF resolve_project_override l t t']
  show "result (get self r ''TEST_SECRET'' (Some ''test_project'') (Some ''dev'') (Some []) client_id client_secret t0 t_read t1) = Inr v"
    by (simp add: h)
  show "filter is_remote (trace (get self r ''TEST_SECRET'' (Some ''test_project'') (Some ''dev'') (Some []) client_id client_secret t0 t_read t1)) = []"
    by (simp add: h)
qed

theorem cache_key_scenario_witness:
  "resolve_project (Some ''test_project'') (project_id (example_facade seeded_cache)) = Some ''test_project''
   \<and> map_of (links (cache (example_facade seeded_cache))) ''test_project:dev::TEST_SECRET''
        = Some (''cached_value'', 3600)
   \<and> (10 :: nat) < 3600
   \<and> hd (trace (get (example_facade seeded_cache) failing_remote ''TEST_SECRET'' (Some ''test_project'')
        (Some ''dev'') (Some []) None None 10 10 11)) = CacheContains ''test_project:dev::TEST_SECRET''
   \<and> result (get (example_facade seeded_cache) failing_remote ''TEST_SECRET'' (Some ''test_project'')
        (Some ''dev'') (Some []) None None 10 10 11) = Inr ''cached_value''
   \<and> filter is_remote (trace (get (example_facade seeded_cache) failing_remote ''TEST_SECRET''
        (Some ''test_project'') (Some ''dev'') (Some []) None None 10 10 11)) = []"
proof -
  have rp: "resolve_project (Some ''test_project'') (project_id (example_facade seeded_cache)) = Some ''test_project''"
    by (rule resolve_project_override)
  have l: "map_of (links (cache (example_facade seeded_cache))) ''test_project:dev::TEST_SECRET''
        = Some (''cached_value'', 3600)"
    by (simp add: example_facade_def seeded_cache_def)
  have t: "(10 :: nat) < 3600" by simp
  have e: "''test_project'' @ '':'' @ env_arg (Some ''dev'') @ '':'' @ path_arg (Some []) @ '':'' @ ''TEST_SECRET''
      = ''test_project:dev::TEST_SECRET''"
    by (simp add: env_arg_def path_arg_def)
  show ?thesis
    using rp l t cache_key_scenario[of "Some ''test_project''" "example_facade seeded_cache"
        "''test_project''" failing_remote "''TEST_SECRET''" "Some ''dev''" "Some []" None None 10 10 11
        "''cached_value''" 3600]
    unfolding e by blast
qed

section \<open>Failures of the remote service\<close>

lemma get_sdk_construction_fails:
  assumes "resolve_project project (project_id self) = Some pid"
    and "\<not> contains (cache self) t0 (cache_key pid (env_arg env) (path_arg path) key)"
    and "fst (choose_sdk self r client_id client_secret) = Inl e"
  shows "result (get self r key project env path client_id client_secret t0 t_read t1) = Inl e"
    and "cache_after (get self r key project env path client_id client_secret t0 t_read t1) = cache self"
  using assms by (auto simp: get_def Let_def split: prod.splits)

lemma get_fetch_fails:
  assumes "resolve_project project (project_id self) = Some pid"
    and "\<not> contains (cache self) t0 (cache_key pid (env_arg env) (path_arg path) key)"
    and "fst (choose_sdk self r client_id client_secret) = Inr s"
    and "get_secret_by_name r s key pid (env_arg env)
           (if path_arg path \<noteq> [] then path_arg path else secret_path self) = Inl e"
  shows "result (get self r key project env path client_id client_secret t0 t_read t1) = Inl e"
    and "cache_after (get self r key project env path client_id client_secret t0 t_read t1) = cache self"
  using assms by (auto simp: get_def Let_def split: prod.splits)

text \<open>
  C5. Once the project is resolved, an operation whose call to the remote service
  raises \<open>e\<close> returns \<open>e\<close> itself and leaves the cache as it was: \<open>get\<close> (on a cache
  miss, the only case in which it calls the service) stores nothing, \<open>create_secret\<close>
  and \<open>update_secret\<close> invalidate nothing, and \<open>get_all\<close>, \<open>list_secrets\<close> and
  \<open>secret_by_name\<close> never write the cache.
\<close>

theorem remote_failure_leaves_cache:
  assumes "resolve_project project (project_id self) = Some pid"
  shows "(\<not> contains (cache self) t0 (cache_key pid (env_arg env) (path_arg path) key)
          \<and> fst (choose_sdk self r client_id client_secret) = Inr s
          \<and> get_secret_by_name r s key pid (env_arg env)
               (if path_arg path \<noteq> [] then path_arg path else secret_path self) = Inl e \<longrightarrow>
              result (get self r key project env path client_id client_secret t0 t_read t1) = Inl e
            \<and> cache_after (get self r key project env path client_id client_secret t0 t_read t1) = cache self)
       \<and> (sdk_list_secrets r (client self) pid (env_arg env)
            (if path_arg path \<noteq> [] then path_arg path else secret_path self) True True False True [] = Inl e \<longrightarrow>
              result (get_all self r project env path) = Inl e
            \<and> cache_after (get_all self r project env path) = cache self)
       \<and> (sdk_list_secrets r (client self) pid (env_arg env)
            (if path_arg path \<noteq> [] then path_arg path else secret_path self) ex vw rc im
            (case tags of None \<Rightarrow> [] | Some ts \<Rightarrow> ts) = Inl e \<longrightarrow>
              result (list_secrets self r project env path ex vw rc im tags) = Inl e
            \<and> cache_after (list_secrets self r project env path ex vw rc im tags) = cache self)
       \<and> (create_secret_by_name r (client self) name val pid (or_else opath (secret_path self)) (env_arg env) copts = Inl e \<longrightarrow>
              result (create_secret self r name val project env opath copts now) = Inl e
            \<and> cache_after (create_secret self r name val project env opath copts now) = cache self)
       \<and> (update_secret_by_name r (client self) name pid (or_else opath (secret_path self)) (env_arg env)
             (uopts\<lparr>secret_metadata := Some (list_or_empty (secret_metadata uopts)),
                     tags_ids := Some (list_or_empty (tags_ids uopts))\<rparr>) = Inl e \<longrightarrow>
              result (update_secret self r name project env opath uopts now) = Inl e
            \<and> cache_after (update_secret self r name project env opath uopts now) = cache self)
       \<and> (get_secret_by_name r (client self) name pid (env_arg env) (or_else opath (secret_path self)) = Inl e \<longrightarrow>
              result (secret_by_name self r name project env opath) = Inl e
            \<and> cache_after (secret_by_name self r name project env opath) = cache self)"
proof (intro conjI impI)
  assume a: "\<not> contains (cache self) t0 (cache_key pid (env_arg env) (path_arg path) key)
          \<and> fst (choose_sdk self r client_id client_secret) = Inr s
          \<and> get_secret_by_name r s key pid (env_arg env)
               (if path_arg path \<noteq> [] then path_arg path else secret_path self) = Inl e"
  show "result (get self r key project env path client_id client_secret t0 t_read t1) = Inl e"
    using a get_fetch_fails(1)[OF assms] by blast
  show "cache_after (get self r key project env path client_id client_secret t0 t_read t1) = cache self"
    using a get_fetch_fails(2)[OF assms] by blast
qed (simp_all add: assms get_all_def list_secrets_def create_secret_def update_secret_def secret_by_name_def Let_def)

theorem remote_failure_leaves_cache_witness:
  "resolve_project (Some ''test_project'') (project_id (example_facade seeded_cache)) = Some ''test_project''
   \<and> \<not> contains (cache (example_facade seeded_cache)) 10
         (cache_key ''test_project'' (env_arg None) (path_arg None) ''OTHER_SECRET'')
   \<and> fst (choose_sdk (example_facade seeded_cache) failing_remote None None) = Inr example_client
   \<and> result (get (example_facade seeded_cache) failing_remote ''OTHER_SECRET'' (Some ''test_project'')
        None None None None 10 10 11) = Inl (SDKError ''SDK error'')
   \<and> cache_after (get (example_facade seeded_cache) failing_remote ''OTHER_SECRET''
        (Some ''test_project'') None None None None 10 10 11) = seeded_cache
   \<and> result (get_all (example_facade seeded_cache) failing_remote (Some ''test_project'') None None)
        = Inl (SDKError ''SDK error'')
   \<and> result (list_secrets (example_facade seeded_cache) failing_remote (Some ''test_project'') None None
        True True False True None) = Inl (SDKError ''SDK error'')
   \<and> result (create_secret (example_facade seeded_cache) failing_remote ''NEW_SECRET'' ''v''
        (Some ''test_project'') None None no_opts 12) = Inl (SDKError ''SDK error'')
   \<and> cache_after (create_secret (example_facade seeded_cache) failing_remote ''NEW_SECRET'' ''v''
        (Some ''test_project'') None None no_opts 12) = seeded_cache
   \<and> result (update_secret (example_facade seeded_cache) failing_remote ''NEW_SECRET''
        (Some ''test_project'') None None no_update_opts 12) = Inl (SDKError ''SDK error'')
   \<and> cache_after (update_secret (example_facade seeded_cache) failing_remote ''NEW_SECRET''
        (Some ''test_project'') None None no_update_opts 12) = seeded_cache
   \<and> result (secret_by_name (example_facade seeded_cache) failing_remote ''NEW_SECRET''
        (Some ''test_project'') None None) = Inl (SDKError ''SDK error'')"
proof -
  have rp: "resolve_project (Some ''test_project'') (project_id (example_facade seeded_cache)) = Some ''test_project''"
    by (rule resolve_project_override)
  have m: "\<not> contains (cache (example_facade seeded_cache)) 10
         (cache_key ''test_project'' (env_arg None) (path_arg None) ''OTHER_SECRET'')"
    by (simp add: contains_def example_facade_def seeded_cache_def cache_key_def LoadEnv_key_def
          env_arg_def path_arg_def)
  have s: "fst (choose_sdk (example_facade seeded_cache) failing_remote None None) = Inr example_client"
    by (simp add: choose_sdk_def truthy_def example_facade_def)
  have f: "get_secret_by_name failing_remote a b c d x = Inl (SDKError ''SDK error'')"
    "sdk_list_secrets failing_remote a c d x b1 b2 b3 b4 ts = Inl (SDKError ''SDK error'')"
    "create_secret_by_name failing_remote a b c d x y co = Inl (SDKError ''SDK error'')"
    "update_secret_by_name failing_remote a b c d x uo = Inl (SDKError ''SDK error'')"
    for a b c d x y b1 b2 b3 b4 ts co uo
    by (simp_all add: failing_remote_def)
  have c: "cache (example_facade seeded_cache) = seeded_cache"
    by (simp add: example_facade_def)
  show ?thesis
    using rp m s
      remote_failure_leaves_cache[OF rp, of 10 None None "''OTHER_SECRET''" failing_remote None None
        example_client "SDKError ''SDK error''" 10 11 True True False True None
        "''NEW_SECRET''" "''v''" None no_opts 12 no_update_opts]
    by (simp add: f c)
qed

section \<open>The default environment\<close>

lemmas eval_defs =
  get_def get_all_def list_secrets_def create_secret_def update_secret_def secret_by_name_def
  resolve_project_def truthy_def or_else_def env_arg_def path_arg_def list_or_empty_def
  cache_key_def LoadEnv_key_def choose_sdk_def new_SDK_def
  contains_def getitem_def setitem_def delitem_def expire_def keys_def live_def remove_key_def
  new_cache_def Let_def

text \<open>
  C6, as stated, fails: on a facade built from a process environment that sets
  \<^verbatim>\<open>INFISICAL_ENVIRONMENT=staging\<close>, the attribute \<open>environment_slug\<close> is \<^verbatim>\<open>staging\<close>,
  yet a \<open>get\<close> without an environment looks up and stores the key of \<^verbatim>\<open>dev\<close> and
  fetches from \<^verbatim>\<open>dev\<close>.
\<close>

theorem environment_default_counterexample:
  "init example_remote staging_environ (Some ''test_client_id'') (Some ''test_client_secret'')
       default_host = Inr staging_facade
   \<and> environment_slug staging_facade = ''staging''
   \<and> trace (get staging_facade example_remote ''TEST_SECRET'' None None None None None 10 10 11)
       = [CacheContains ''test_project:dev::TEST_SECRET'',
          GetSecretByName example_client ''TEST_SECRET'' ''test_project'' ''dev'' ''/'',
          CacheSet ''test_project:dev::TEST_SECRET'']"
proof (intro conjI)
  show "init example_remote staging_environ (Some ''test_client_id'') (Some ''test_client_secret'')
       default_host = Inr staging_facade"
    by (simp add: init_def new_SDK_def example_remote_def staging_environ_def staging_facade_def
          or_else_def getenv_def example_client_def Let_def)
  show "environment_slug staging_facade = ''staging''"
    by (simp add: staging_facade_def)
  show "trace (get staging_facade example_remote ''TEST_SECRET'' None None None None None 10 10 11)
       = [CacheContains ''test_project:dev::TEST_SECRET'',
          GetSecretByName example_client ''TEST_SECRET'' ''test_project'' ''dev'' ''/'',
          CacheSet ''test_project:dev::TEST_SECRET'']"
    by (simp add: eval_defs staging_facade_def example_remote_def)
qed

text \<open>
  C6, amended. An operation called without an environment behaves exactly as if called
  with the environment \<^verbatim>\<open>dev\<close>, the default of its signature; and no operation depends
  on the attribute \<open>environment_slug\<close> that the constructor reads from the process
  environment.
\<close>

theorem environment_default_is_dev:
  "get self r key project None path client_id client_secret t0 t_read t1
     = get self r key project (Some ''dev'') path client_id client_secret t0 t_read t1
   \<and> get_all self r project None path = get_all self r project (Some ''dev'') path
   \<and> list_secrets self r project None path ex vw rc im tags
     = list_secrets self r project (Some ''dev'') path ex vw rc im tags
   \<and> create_secret self r name val project None opath copts now
     = create_secret self r name val project (Some ''dev'') opath copts now
   \<and> update_secret self r name project None opath uopts now
     = update_secret self r name project (Some ''dev'') opath uopts now
   \<and> secret_by_name self r name project None opath
     = secret_by_name self r name project (Some ''dev'') opath
   \<and> get (self\<lparr>environment_slug := x\<rparr>) r key project env path client_id client_secret t0 t_read t1
     = get self r key project env path client_id client_secret t0 t_read t1
   \<and> get_all (self\<lparr>environment_slug := x\<rparr>) r project env path = get_all self r project env path
   \<and> list_secrets (self\<lparr>environment_slug := x\<rparr>) r project env path ex vw rc im tags
     = list_secrets self r project env path ex vw rc im tags
   \<and> create_secret (self\<lparr>environment_slug := x\<rparr>) r name val project env opath copts now
     = create_secret self r name val project env opath copts now
   \<and> update_secret (self\<lparr>environment_slug := x\<rparr>) r name project env opath uopts now
     = update_secret self r name project env opath uopts now
   \<and> secret_by_name (self\<lparr>environment_slug := x\<rparr>) r name project env opath
     = secret_by_name self r name project env opath"
proof -
  have e: "env_arg None = env_arg (Some ''dev'')"
    by (simp add: env_arg_def)
  show ?thesis
    unfolding get_def get_all_def list_secrets_def create_secret_def update_secret_def
        secret_by_name_def choose_sdk_def e
    by (simp split del: if_split
          cong del: option.case_cong_weak sum.case_cong_weak prod.case_cong_weak if_weak_cong)
qed

section \<open>Stores and expiry\<close>

lemma map_of_remove_key_same: "map_of (remove_key k xs) k = None"
  by (induction xs) (auto simp: remove_key_def)

lemma map_of_remove_key_other: "k' \<noteq> k \<Longrightarrow> map_of (remove_key k xs) k' = map_of xs k'"
  by (induction xs) (auto simp: remove_key_def)

lemma length_remove_key: "length (remove_key k xs) \<le> length xs"
  by (simp add: remove_key_def)

lemma length_remove_key_present:
  "map_of xs k = Some y \<Longrightarrow> length (remove_key k xs) < length xs"
  unfolding remove_key_def
  by (rule length_filter_less[of "(k, y)"]) (auto dest: map_of_SomeD)

lemma set_shrink: "set (shrink m xs) \<subseteq> set xs"
  by (induction xs) auto

lemma length_shrink: "0 < m \<Longrightarrow> length (shrink m xs) < m"
  by (induction xs) auto

lemma setitem_Inr:
  assumes "setitem c now k v = (Inr u, c')"
  shows "map_of (links c') k = Some (v, now + ttl c)" and "maxsize c' = maxsize c"
    and "ttl c' = ttl c" and "0 < maxsize c"
  using assms
  by (auto simp: setitem_def Let_def expire_def map_add_def map_of_remove_key_same split: if_splits)

lemma setitem_total:
  "0 < maxsize c \<Longrightarrow> \<exists>c'. setitem c now k v = (Inr (), c')"
  by (simp add: setitem_def Let_def expire_def)

lemma setitem_members:
  "(k', x) \<in> set (links (snd (setitem c now k v))) \<Longrightarrow> k' \<noteq> k \<Longrightarrow> (k', x) \<in> set (links c)"
  using set_shrink[of "maxsize c" "filter (live now) (links c)"]
  by (auto simp: setitem_def Let_def expire_def remove_key_def split: if_splits)


section \<open>Cache misses\<close>



lemma get_miss_success:
  assumes "resolve_project project (project_id self) = Some pid"
    and "\<not> contains (cache self) t0 (cache_key pid (env_arg env) (path_arg path) key)"
    and "result (get self r key project env path client_id client_secret t0 t_read t1) = Inr v"
  shows "\<exists>s tr. choose_sdk self r client_id client_secret = (Inr s, tr)
           \<and> trace (get self r key project env path client_id client_secret t0 t_read t1)
               = CacheContains (cache_key pid (env_arg env) (path_arg path) key) # tr
                 @ [GetSecretByName s key pid (env_arg env)
                      (if path_arg path \<noteq> [] then path_arg path else secret_path self),
                    CacheSet (cache_key pid (env_arg env) (path_arg path) key)]
           \<and> setitem (cache self) t1 (cache_key pid (env_arg env) (path_arg path) key) v
               = (Inr (), cache_after (get self r key project env path client_id client_secret t0 t_read t1))"
  using assms
  by (auto simp: get_def Let_def split: prod.splits sum.splits option.splits split del: if_split)



section \<open>Credentials and paths against the cache key\<close>

lemma cache_key_path_differs:
  "p \<noteq> [] \<Longrightarrow> cache_key pid env p key \<noteq> cache_key pid env [] key"
  by (simp add: cache_key_def LoadEnv_key_def)



text \<open>
  C10. A \<open>get\<close> with an empty path on a facade whose default path is not empty, missing
  the cache and fetching \<open>v\<close>: the fetch is issued with the default path, the value is
  stored under the key of the empty path, \<^verbatim>\<open>project:env::name\<close>, and the key that holds
  the default path is a different one under which the call adds nothing.
\<close>

theorem empty_path_cached_under_empty_key:
  assumes "resolve_project project (project_id self) = Some pid"
    and "path_arg path = []" and "secret_path self \<noteq> []"
    and "\<not> contains (cache self) t0 (cache_key pid (env_arg env) [] key)"
    and "result (get self r key project env path client_id client_secret t0 t_read t1) = Inr v"
  shows "(\<exists>s tr. trace (get self r key project env path client_id client_secret t0 t_read t1)
            = CacheContains (pid @ '':'' @ env_arg env @ ''::'' @ key) # tr
              @ [GetSecretByName s key pid (env_arg env) (secret_path self),
                 CacheSet (pid @ '':'' @ env_arg env @ ''::'' @ key)])
       \<and> map_of (links (cache_after (get self r key project env path client_id client_secret t0 t_read t1)))
            (pid @ '':'' @ env_arg env @ ''::'' @ key) = Some (v, t1 + ttl (cache self))
       \<and> cache_key pid (env_arg env) (secret_path self) key \<noteq> pid @ '':'' @ env_arg env @ ''::'' @ key
       \<and> (\<forall>x. (cache_key pid (env_arg env) (secret_path self) key, x)
                 \<in> set (links (cache_after (get self r key project env path client_id client_secret t0 t_read t1)))
              \<longrightarrow> (cache_key pid (env_arg env) (secret_path self) key, x) \<in> set (links (cache self)))"
proof -
  let ?k = "cache_key pid (env_arg env) (path_arg path) key"
  let ?kd = "cache_key pid (env_arg env) (secret_path self) key"
  let ?g = "get self r key project env path client_id client_secret t0 t_read t1"
  have k: "?k = pid @ '':'' @ env_arg env @ ''::'' @ key"
    using assms(2) by (simp add: cache_key_def LoadEnv_key_def)
  have miss: "\<not> contains (cache self) t0 ?k"
    using assms(2,4) by simp
  from get_miss_success[OF assms(1) miss assms(5)] obtain s tr
    where tr: "trace ?g = CacheContains ?k # tr
                 @ [GetSecretByName s key pid (env_arg env)
                      (if path_arg path \<noteq> [] then path_arg path else secret_path self),
                    CacheSet ?k]"
      and st: "setitem (cache self) t1 ?k v = (Inr (), cache_after ?g)"
    by blast
  have a: "\<exists>s tr. trace ?g = CacheContains ?k # tr
              @ [GetSecretByName s key pid (env_arg env) (secret_path self), CacheSet ?k]"
    using tr assms(2) by auto
  have l: "map_of (links (cache_after ?g)) ?k = Some (v, t1 + ttl (cache self))"
    using st by (rule setitem_Inr)
  have d: "?kd \<noteq> ?k"
    using cache_key_path_differs[OF assms(3)] assms(2) by simp
  have n: "(?kd, x) \<in> set (links (cache self))" if "(?kd, x) \<in> set (links (cache_after ?g))" for x
    using setitem_members[of ?kd x "cache self" t1 ?k v] that d st by simp
  show ?thesis
    using a l d n unfolding k by blast
qed

theorem empty_path_cached_under_empty_key_witness:
  "resolve_project (Some ''test_project'') (project_id (example_facade seeded_cache)) = Some ''test_project''
   \<and> path_arg None = [] \<and> secret_path (example_facade seeded_cache) = ''/''
   \<and> \<not> contains (cache (example_facade seeded_cache)) 10 (cache_key ''test_project'' (env_arg None) [] ''OTHER_SECRET'')
   \<and> result (get (example_facade seeded_cache) example_remote ''OTHER_SECRET'' (Some ''test_project'')
        None None None None 10 10 11) = Inr ''fresh_value''
   \<and> trace (get (example_facade seeded_cache) example_remote ''OTHER_SECRET'' (Some ''test_project'')
        None None None None 10 10 11)
       = [CacheContains ''test_project:dev::OTHER_SECRET'',
          GetSecretByName example_client ''OTHER_SECRET'' ''test_project'' ''dev'' ''/'',
          CacheSet ''test_project:dev::OTHER_SECRET'']
   \<and> map_of (links (cache_after (get (example_facade seeded_cache) example_remote ''OTHER_SECRET''
        (Some ''test_project'') None None None None 10 10 11))) ''test_project:dev::OTHER_SECRET''
       = Some (''fresh_value'', 3611)
   \<and> map_of (links (cache_after (get (example_facade seeded_cache) example_remote ''OTHER_SECRET''
        (Some ''test_project'') None None None None 10 10 11))) ''test_project:dev:/:OTHER_SECRET''
       = None"
proof -
  let ?f = "example_facade seeded_cache"
  let ?g = "get ?f example_remote ''OTHER_SECRET'' (Some ''test_project'') None None None None 10 10 11"
  have rp: "resolve_project (Some ''test_project'') (project_id ?f) = Some ''test_project''"
    by (rule resolve_project_override)
  have p: "path_arg None = []" by (simp add: path_arg_def)
  have sp: "secret_path ?f = ''/''" by (simp add: example_facade_def)
  have sp': "secret_path ?f \<noteq> []" by (simp add: example_facade_def)
  have m: "\<not> contains (cache ?f) 10 (cache_key ''test_project'' (env_arg None) [] ''OTHER_SECRET'')"
    by (simp add: contains_def example_facade_def seeded_cache_def cache_key_def LoadEnv_key_def env_arg_def)
  have g: "?g = \<lparr>result = Inr ''fresh_value'',
        cache_after = \<lparr>maxsize = 100, ttl = 3600,
           links = [(''test_project:dev::TEST_SECRET'', ''cached_value'', 3600),
                    (''test_project:dev::OTHER_SECRET'', ''fresh_value'', 3611)]\<rparr>,
        trace = [CacheContains ''test_project:dev::OTHER_SECRET'',
          GetSecretByName example_client ''OTHER_SECRET'' ''test_project'' ''dev'' ''/'',
          CacheSet ''test_project:dev::OTHER_SECRET'']\<rparr>"
    by (simp add: eval_defs example_facade_def example_remote_def seeded_cache_def)
  have r: "result ?g = Inr ''fresh_value''"
    by (simp add: g)
  have e: "''test_project'' @ '':'' @ env_arg None @ ''::'' @ ''OTHER_SECRET'' = ''test_project:dev::OTHER_SECRET''"
    by (simp add: env_arg_def)
  have t: "11 + ttl (cache ?f) = 3611"
    by (simp add: example_facade_def seeded_cache_def)
  have l: "map_of (links (cache_after ?g)) ''test_project:dev::OTHER_SECRET'' = Some (''fresh_value'', 3611)"
    using empty_path_cached_under_empty_key[OF rp p sp' m r] unfolding e t by blast
  have tr: "trace ?g = [CacheContains ''test_project:dev::OTHER_SECRET'',
          GetSecretByName example_client ''OTHER_SECRET'' ''test_project'' ''dev'' ''/'',
          CacheSet ''test_project:dev::OTHER_SECRET'']"
    by (simp add: g)
  have n: "map_of (links (cache_after ?g)) ''test_project:dev:/:OTHER_SECRET'' = None"
    by (simp add: g)
  show ?thesis
    using rp p sp m r tr l n by blast
qed

section \<open>The capacity bound\<close>

lemma setitem_bounded:
  assumes "bounded c" and "setitem c now k v = (res, c')"
  shows "bounded c' \<and> maxsize c' = maxsize c"
proof -
  let ?xs = "filter (live now) (links c)"
  have le: "length ?xs \<le> maxsize c"
    using assms(1) unfolding bounded_def by (simp add: le_trans[OF length_filter_le])
  show ?thesis
  proof (cases "0 < maxsize c")
    case False
    then show ?thesis
      using le assms(2) by (auto simp: setitem_def Let_def expire_def bounded_def)
  next
    case m: True
    show ?thesis
    proof (cases "map_of ?xs k")
      case None
      have "length (remove_key k (shrink (maxsize c) ?xs)) < maxsize c"
        using length_shrink[OF m, of ?xs] length_remove_key[of k "shrink (maxsize c) ?xs"] by simp
      then show ?thesis
        using m None assms(2) by (auto simp: setitem_def Let_def expire_def bounded_def)
    next
      case (Some y)
      have "length (remove_key k ?xs) < maxsize c"
        using length_remove_key_present[OF Some] le by simp
      then show ?thesis
        using m Some assms(2) by (auto simp: setitem_def Let_def expire_def bounded_def)
    qed
  qed
qed

lemma getitem_bounded:
  assumes "bounded c" and "getitem c now k = (res, c')"
  shows "bounded c' \<and> maxsize c' = maxsize c"
proof (cases "map_of (links c) k")
  case None
  then show ?thesis using assms by (auto simp: getitem_def)
next
  case (Some y)
  obtain v e where y: "y = (v, e)" by (cases y)
  have "length (remove_key k (links c)) < maxsize c"
    using length_remove_key_present[OF Some] assms(1) by (simp add: bounded_def)
  then show ?thesis
    using Some y assms(2) by (auto simp: getitem_def Let_def bounded_def split: if_splits)
qed

lemma delitem_bounded:
  assumes "bounded c" and "delitem c now k = (res, c')"
  shows "bounded c' \<and> maxsize c' = maxsize c"
  using assms length_remove_key[of k "links c"]
  by (auto simp: delitem_def Let_def bounded_def split: option.splits if_splits)

lemma del_keys_bounded:
  "bounded c \<Longrightarrow> del_keys c now ks = (res, c', tr) \<Longrightarrow> bounded c' \<and> maxsize c' = maxsize c"
proof (induction ks arbitrary: c res c' tr)
  case Nil
  then show ?case by simp
next
  case (Cons k ks)
  obtain r1 c1 where d: "delitem c now k = (r1, c1)" by (cases "delitem c now k")
  have b: "bounded c1 \<and> maxsize c1 = maxsize c"
    using delitem_bounded[OF Cons.prems(1) d] .
  show ?case
  proof (cases r1)
    case (Inl e)
    then show ?thesis using Cons.prems(2) d b by simp
  next
    case (Inr u)
    obtain r2 c2 t2 where d2: "del_keys c1 now ks = (r2, c2, t2)"
      by (cases "del_keys c1 now ks")
    have "bounded c2 \<and> maxsize c2 = maxsize c1"
      using Cons.IH[OF _ d2] b by blast
    then show ?thesis using Cons.prems(2) d d2 b Inr by simp
  qed
qed

lemma invalidate_bounded:
  "bounded c \<Longrightarrow> invalidate c now pid env ps = (res, c', tr) \<Longrightarrow> bounded c' \<and> maxsize c' = maxsize c"
proof (induction ps arbitrary: c res c' tr)
  case Nil
  then show ?case by simp
next
  case (Cons p ps)
  let ?ks = "filter (prefix (LoadEnv_key pid env p)) (keys c now)"
  obtain r1 c1 t1 where d: "del_keys c now ?ks = (r1, c1, t1)" by (cases "del_keys c now ?ks")
  have b: "bounded c1 \<and> maxsize c1 = maxsize c"
    using del_keys_bounded[OF Cons.prems(1) d] .
  show ?case
  proof (cases r1)
    case (Inl e)
    then show ?thesis using Cons.prems(2) d b by (simp add: Let_def)
  next
    case (Inr u)
    obtain r2 c2 t2 where d2: "invalidate c1 now pid env ps = (r2, c2, t2)"
      by (cases "invalidate c1 now pid env ps")
    have "bounded c2 \<and> maxsize c2 = maxsize c1"
      using Cons.IH[OF _ d2] b by blast
    then show ?thesis using Cons.prems(2) d d2 b Inr by (simp add: Let_def)
  qed
qed

lemma get_bounded:
  assumes "bounded (cache self)"
  shows "bounded (cache_after (get self r key project env path cid cs t0 t_read t1))
       \<and> maxsize (cache_after (get self r key project env path cid cs t0 t_read t1)) = maxsize (cache self)"
proof (cases "resolve_project project (project_id self)")
  case None
  then show ?thesis using assms by (simp add: get_def)
next
  case (Some pid)
  let ?k = "cache_key pid (env_arg env) (path_arg path) key"
  let ?p = "if path_arg path \<noteq> [] then path_arg path else secret_path self"
  show ?thesis
  proof (cases "contains (cache self) t0 ?k")
    case True
    obtain res c' where g: "getitem (cache self) t_read ?k = (res, c')"
      by (cases "getitem (cache self) t_read ?k")
    show ?thesis
      using getitem_bounded[OF assms g] Some True g by (simp add: get_def Let_def)
  next
    case False
    obtain sres tr where c: "choose_sdk self r cid cs = (sres, tr)"
      by (cases "choose_sdk self r cid cs")
    show ?thesis
    proof (cases sres)
      case (Inl e)
      then show ?thesis using Some False c assms by (simp add: get_def Let_def)
    next
      case (Inr s)
      show ?thesis
      proof (cases "get_secret_by_name r s key pid (env_arg env) ?p")
        case (Inl e)
        then show ?thesis using Some False c assms \<open>sres = Inr s\<close>
          by (simp add: get_def Let_def split del: if_split)
      next
        case f: (Inr secret)
        show ?thesis
        proof (cases "secret_value secret")
          case None
          then show ?thesis using Some False c assms \<open>sres = Inr s\<close> f
            by (simp add: get_def Let_def split del: if_split)
        next
          case sv: (Some v)
          obtain res c' where st: "setitem (cache self) t1 ?k v = (res, c')"
            by (cases "setitem (cache self) t1 ?k v")
          show ?thesis
            using setitem_bounded[OF assms st] Some False c \<open>sres = Inr s\<close> f sv st
            by (cases res) (simp_all add: get_def Let_def split del: if_split)
        qed
      qed
    qed
  qed
qed

lemma create_secret_bounded:
  assumes "bounded (cache self)"
  shows "bounded (cache_after (create_secret self r name val project env path opts now))
       \<and> maxsize (cache_after (create_secret self r name val project env path opts now)) = maxsize (cache self)"
  using assms
  by (auto simp: create_secret_def Let_def simp del: invalidate.simps dest: invalidate_bounded
        split: option.splits prod.splits sum.splits)

lemma update_secret_bounded:
  assumes "bounded (cache self)"
  shows "bounded (cache_after (update_secret self r name project env path opts now))
       \<and> maxsize (cache_after (update_secret self r name project env path opts now)) = maxsize (cache self)"
  using assms
  by (auto simp: update_secret_def Let_def simp del: invalidate.simps dest: invalidate_bounded
        split: option.splits prod.splits sum.splits)

lemma step_cache_bounded:
  assumes "bounded (cache self)"
  shows "bounded (step_cache self r c) \<and> maxsize (step_cache self r c) = maxsize (cache self)"
proof (cases c)
  case (CallGet key project env path cid cs t0 t_read t1)
  then show ?thesis using get_bounded[OF assms] by simp
next
  case (CallGetAll project env path)
  then show ?thesis using assms by (simp add: get_all_def Let_def split: option.splits sum.splits)
next
  case (CallListSecrets project env path ex vw rc im tags)
  then show ?thesis using assms by (simp add: list_secrets_def Let_def split: option.splits)
next
  case (CallCreateSecret name val project env path opts now)
  then show ?thesis using create_secret_bounded[OF assms] by simp
next
  case (CallUpdateSecret name project env path opts now)
  then show ?thesis using update_secret_bounded[OF assms] by simp
next
  case (CallSecretByName name project env path)
  then show ?thesis using assms by (simp add: secret_by_name_def Let_def split: option.splits)
qed

lemma run_bounded:
  "bounded (cache self) \<Longrightarrow>
     bounded (cache (run self calls)) \<and> maxsize (cache (run self calls)) = maxsize (cache self)"
proof (induction calls arbitrary: self)
  case Nil
  then show ?case by simp
next
  case (Cons rc calls)
  obtain r c where rc: "rc = (r, c)" by (cases rc)
  let ?self' = "self\<lparr>cache := step_cache self r c\<rparr>"
  have b: "bounded (cache ?self')" and m: "maxsize (cache ?self') = maxsize (cache self)"
    using step_cache_bounded[OF Cons.prems, of r c] by simp_all
  show ?case
    using Cons.IH[OF b] m rc by simp
qed

lemma store_all_bounded:
  "bounded c \<Longrightarrow> bounded (store_all c stores) \<and> maxsize (store_all c stores) = maxsize c"
proof (induction stores arbitrary: c)
  case Nil
  then show ?case by simp
next
  case (Cons s stores)
  obtain now k v where s: "s = (now, k, v)" by (cases s)
  have b: "bounded (snd (setitem c now k v)) \<and> maxsize (snd (setitem c now k v)) = maxsize c"
    using setitem_bounded[OF Cons.prems, of now k v] by (cases "setitem c now k v") simp
  show ?case
    using Cons.IH[of "snd (setitem c now k v)"] b s by simp
qed

lemma init_cache:
  "init r environ cid cs host = Inr self \<Longrightarrow> cache self = new_cache 100 3600"
  by (auto simp: init_def Let_def split: sum.splits)

text \<open>
  C7. However many stores are made into a cache of capacity \<open>m\<close>, at any times and under
  any keys, no more than \<open>m\<close> entries are resident afterwards; and after any sequence of
  operations on a facade built by the constructor, against any remote behaviour, its
  cache holds at most 100 entries.
\<close>

theorem capacity_bound:
  "length (links (store_all (new_cache m t) stores)) \<le> m
   \<and> (init r environ cid cs host = Inr self \<longrightarrow>
        length (links (cache (run self calls))) \<le> 100
      \<and> maxsize (cache (run self calls)) = 100)"
proof -
  have e: "bounded (new_cache n t')" for n t'
    by (simp add: bounded_def new_cache_def)
  have a: "length (links (store_all (new_cache m t) stores)) \<le> m"
    using store_all_bounded[OF e, of m t stores] by (simp add: bounded_def new_cache_def)
  have b: "length (links (cache (run self calls))) \<le> 100 \<and> maxsize (cache (run self calls)) = 100"
    if i: "init r environ cid cs host = Inr self"
  proof -
    have c: "cache self = new_cache 100 3600" using i by (rule init_cache)
    have "bounded (cache self)" unfolding c by (rule e)
    from run_bounded[OF this, of calls] show ?thesis
      by (simp add: bounded_def c new_cache_def)
  qed
  show ?thesis using a b by blast
qed

theorem capacity_bound_witness:
  "init example_remote staging_environ (Some ''test_client_id'') (Some ''test_client_secret'')
       default_host = Inr staging_facade
   \<and> length (links (cache (run staging_facade
         [(example_remote, CallGet ''A'' None None None None None 1 1 2),
          (example_remote, CallGet ''B'' None None (Some ''/app'') None None 3 3 4),
          (example_remote, CallCreateSecret ''C'' ''v'' None None (Some ''/app'') no_opts 5)]))) \<le> 100
   \<and> length (links (store_all (new_cache 2 3600)
         [(1, ''a'', ''x''), (2, ''b'', ''y''), (3, ''c'', ''z'')])) \<le> 2
   \<and> links (store_all (new_cache 2 3600) [(1, ''a'', ''x''), (2, ''b'', ''y''), (3, ''c'', ''z'')])
       = [(''b'', ''y'', 3602), (''c'', ''z'', 3603)]"
proof -
  have i: "init example_remote staging_environ (Some ''test_client_id'') (Some ''test_client_secret'')
       default_host = Inr staging_facade"
    by (simp add: init_def new_SDK_def example_remote_def staging_environ_def staging_facade_def
          or_else_def getenv_def example_client_def Let_def)
  have s: "links (store_all (new_cache 2 3600) [(1, ''a'', ''x''), (2, ''b'', ''y''), (3, ''c'', ''z'')])
       = [(''b'', ''y'', 3602), (''c'', ''z'', 3603)]"
    by (simp add: setitem_def expire_def new_cache_def remove_key_def live_def Let_def)
  show ?thesis
    using i s
      capacity_bound[of 2 3600 "[(1, ''a'', ''x''), (2, ''b'', ''y''), (3, ''c'', ''z'')]"
        example_remote staging_environ "Some ''test_client_id''" "Some ''test_client_secret''"
        default_host staging_facade
        "[(example_remote, CallGet ''A'' None None None None None 1 1 2),
          (example_remote, CallGet ''B'' None None (Some ''/app'') None None 3 3 4),
          (example_remote, CallCreateSecret ''C'' ''v'' None None (Some ''/app'') no_opts 5)]"]
    by blast
qed

section \<open>Invalidation\<close>

lemma delitem_Inr:
  "delitem c now k = (Inr u, c') \<Longrightarrow> c' = c\<lparr>links := remove_key k (links c)\<rparr>"
  by (auto simp: delitem_def Let_def split: option.splits if_splits)

lemma del_keys_Inr:
  "del_keys c now ks = (Inr u, c', tr) \<Longrightarrow>
     c' = c\<lparr>links := filter (\<lambda>x. fst x \<notin> set ks) (links c)\<rparr>"
proof (induction ks arbitrary: c c' tr)
  case Nil
  then show ?case by simp
next
  case (Cons k ks)
  obtain r1 c1 where d: "delitem c now k = (r1, c1)" by (cases "delitem c now k")
  obtain r2 c2 t2 where d2: "del_keys c1 now ks = (r2, c2, t2)" by (cases "del_keys c1 now ks")
  from Cons.prems d d2 have r1: "r1 = Inr ()" and r2: "r2 = Inr u" and c2: "c2 = c'"
    by (cases r1; simp)+
  have c1: "c1 = c\<lparr>links := remove_key k (links c)\<rparr>"
    using d r1 delitem_Inr by blast
  have "c' = c1\<lparr>links := filter (\<lambda>x. fst x \<notin> set ks) (links c1)\<rparr>"
    using Cons.IH[of c1 c2 t2] d2 r2 c2 by simp
  then show ?case
    by (simp add: c1 remove_key_def conj_commute)
qed

lemma live_key_listed:
  "x \<in> set (links c) \<Longrightarrow> live now x \<Longrightarrow> fst x \<in> set (keys c now)"
  by (auto simp: keys_def)

lemma invalidate_Inr:
  "invalidate c now pid env ps = (Inr u, c', tr) \<Longrightarrow>
     \<exists>K. c' = c\<lparr>links := filter (\<lambda>x. fst x \<notin> K) (links c)\<rparr>
       \<and> K \<subseteq> {k. \<exists>p \<in> set ps. prefix (LoadEnv_key pid env p) k}
       \<and> (\<forall>x \<in> set (links c'). live now x \<longrightarrow> (\<forall>p \<in> set ps. \<not> prefix (LoadEnv_key pid env p) (fst x)))"
proof (induction ps arbitrary: c c' tr)
  case Nil
  then have "c' = c\<lparr>links := filter (\<lambda>x. fst x \<notin> {}) (links c)\<rparr>" by simp
  then show ?case by (intro exI[of _ "{}"]) simp
next
  case (Cons p ps)
  let ?P = "LoadEnv_key pid env p"
  let ?ks = "filter (prefix ?P) (keys c now)"
  obtain r1 c1 t1 where d: "del_keys c now ?ks = (r1, c1, t1)" by (cases "del_keys c now ?ks")
  obtain r2 c2 t2 where d2: "invalidate c1 now pid env ps = (r2, c2, t2)"
    by (cases "invalidate c1 now pid env ps")
  from Cons.prems d d2 have r1: "r1 = Inr ()" and r2: "r2 = Inr u" and c2: "c2 = c'"
    by (cases r1; simp add: Let_def)+
  have c1: "c1 = c\<lparr>links := filter (\<lambda>x. fst x \<notin> set ?ks) (links c)\<rparr>"
    using d r1 del_keys_Inr by blast
  from Cons.IH[of c1 c' t2] d2 r2 c2 obtain K
    where K1: "c' = c1\<lparr>links := filter (\<lambda>x. fst x \<notin> K) (links c1)\<rparr>"
      and K2: "K \<subseteq> {k. \<exists>p \<in> set ps. prefix (LoadEnv_key pid env p) k}"
      and K3: "\<forall>x \<in> set (links c'). live now x \<longrightarrow> (\<forall>p \<in> set ps. \<not> prefix (LoadEnv_key pid env p) (fst x))"
    by auto
  have a: "c' = c\<lparr>links := filter (\<lambda>x. fst x \<notin> set ?ks \<union> K) (links c)\<rparr>"
    by (simp add: K1 c1 conj_commute)
  have b: "set ?ks \<union> K \<subseteq> {k. \<exists>q \<in> set (p # ps). prefix (LoadEnv_key pid env q) k}"
    using K2 by auto
  have e: "\<not> prefix ?P (fst x)" if x: "x \<in> set (links c')" and l: "live now x" for x
  proof
    assume pre: "prefix ?P (fst x)"
    have "x \<in> set (links c)" and n: "fst x \<notin> set ?ks" using x a by auto
    then have "fst x \<in> set (keys c now)" using l by (simp add: live_key_listed)
    with pre n show False by simp
  qed
  have f: "\<forall>x \<in> set (links c'). live now x \<longrightarrow> (\<forall>q \<in> set (p # ps). \<not> prefix (LoadEnv_key pid env q) (fst x))"
    using K3 e by auto
  show ?case
    by (rule exI[of _ "set ?ks \<union> K"]) (intro conjI a b f)
qed

lemma map_of_filter_keys:
  "map_of (filter (\<lambda>x. fst x \<notin> K) xs) k = (if k \<in> K then None else map_of xs k)"
  by (induction xs) auto

lemma colon_free_prefix:
  "colon_free a \<Longrightarrow> colon_free b \<Longrightarrow> prefix (a @ '':'' @ x) (b @ '':'' @ y) \<Longrightarrow> a = b \<and> prefix x y"
proof (induction a arbitrary: b)
  case Nil
  then show ?case by (cases b) (auto simp: colon_free_def)
next
  case (Cons h a)
  then show ?case by (cases b) (auto simp: colon_free_def)
qed

lemma other_scope_no_prefix:
  assumes "colon_free P" "colon_free E" "colon_free P'" "colon_free E'"
    and "prefix (LoadEnv_key P E p) (cache_key P' E' p' n)"
  shows "P = P' \<and> E = E'"
proof -
  have 1: "prefix (P @ '':'' @ (E @ '':'' @ p)) (P' @ '':'' @ (E' @ '':'' @ (p' @ '':'' @ n)))"
    using assms(5) by (simp add: LoadEnv_key_def cache_key_def)
  from colon_free_prefix[OF assms(1,3) 1] have 2: "P = P'" and 3: "prefix (E @ '':'' @ p) (E' @ '':'' @ (p' @ '':'' @ n))"
    by simp_all
  from colon_free_prefix[OF assms(2,4) 3] 2 show ?thesis by simp
qed

lemma empty_path_prefix:
  "prefix (LoadEnv_key P E p) k \<Longrightarrow> prefix (LoadEnv_key P E []) k"
proof -
  assume a: "prefix (LoadEnv_key P E p) k"
  have "LoadEnv_key P E p = LoadEnv_key P E [] @ p"
    by (simp add: LoadEnv_key_def)
  then show ?thesis using a append_prefixD by metis
qed

text \<open>What a successful invalidation for the paths \<open>p\<close> and the empty path leaves.\<close>

lemma invalidate_scope:
  assumes "invalidate c now P E [p, []] = (Inr u, c', tr)"
  shows "\<forall>k t. now \<le> t \<and> (prefix (LoadEnv_key P E p) k \<or> prefix (LoadEnv_key P E []) k)
            \<longrightarrow> \<not> contains c' t k"
    and "\<forall>k. \<not> prefix (LoadEnv_key P E p) k \<and> \<not> prefix (LoadEnv_key P E []) k
            \<longrightarrow> map_of (links c') k = map_of (links c) k"
    and "\<forall>P' E' p' n. colon_free P \<and> colon_free E \<and> colon_free P' \<and> colon_free E' \<and> (P', E') \<noteq> (P, E)
            \<longrightarrow> map_of (links c') (cache_key P' E' p' n) = map_of (links c) (cache_key P' E' p' n)"
proof -
  from invalidate_Inr[OF assms] obtain K
    where K1: "c' = c\<lparr>links := filter (\<lambda>x. fst x \<notin> K) (links c)\<rparr>"
      and K2: "K \<subseteq> {k. \<exists>q \<in> set [p, []]. prefix (LoadEnv_key P E q) k}"
      and K3: "\<forall>x \<in> set (links c'). live now x \<longrightarrow> (\<forall>q \<in> set [p, []]. \<not> prefix (LoadEnv_key P E q) (fst x))"
    by auto
  show "\<forall>k t. now \<le> t \<and> (prefix (LoadEnv_key P E p) k \<or> prefix (LoadEnv_key P E []) k)
            \<longrightarrow> \<not> contains c' t k"
  proof (intro allI impI notI)
    fix k t
    assume h: "now \<le> t \<and> (prefix (LoadEnv_key P E p) k \<or> prefix (LoadEnv_key P E []) k)"
      and c: "contains c' t k"
    from c obtain v e where l: "map_of (links c') k = Some (v, e)" and t: "t < e"
      by (auto simp: contains_lookup)
    have m: "(k, v, e) \<in> set (links c')" using l by (rule map_of_SomeD)
    have "live now (k, v, e)" using t h by (simp add: live_def)
    with K3 m have "\<not> prefix (LoadEnv_key P E p) k \<and> \<not> prefix (LoadEnv_key P E []) k"
      by fastforce
    with h show False by blast
  qed
  show u: "\<forall>k. \<not> prefix (LoadEnv_key P E p) k \<and> \<not> prefix (LoadEnv_key P E []) k
            \<longrightarrow> map_of (links c') k = map_of (links c) k"
  proof (intro allI impI)
    fix k
    assume "\<not> prefix (LoadEnv_key P E p) k \<and> \<not> prefix (LoadEnv_key P E []) k"
    then have "k \<notin> K" using K2 by auto
    then show "map_of (links c') k = map_of (links c) k"
      by (simp add: K1 map_of_filter_keys)
  qed
  show "\<forall>P' E' p' n. colon_free P \<and> colon_free E \<and> colon_free P' \<and> colon_free E' \<and> (P', E') \<noteq> (P, E)
            \<longrightarrow> map_of (links c') (cache_key P' E' p' n) = map_of (links c) (cache_key P' E' p' n)"
  proof (intro allI impI)
    fix P' E' p' n
    assume h: "colon_free P \<and> colon_free E \<and> colon_free P' \<and> colon_free E' \<and> (P', E') \<noteq> (P, E)"
    have "\<not> prefix (LoadEnv_key P E q) (cache_key P' E' p' n)" for q
      using other_scope_no_prefix[of P E P' E' q p' n] h by auto
    then show "map_of (links c') (cache_key P' E' p' n) = map_of (links c) (cache_key P' E' p' n)"
      using u by blast
  qed
qed

lemma create_secret_Inr:
  assumes "resolve_project project (project_id self) = Some pid"
    and "result (create_secret self r name val project env path opts now) = Inr d"
  shows "\<exists>tr. invalidate (cache self) now pid (env_arg env) [or_else path (secret_path self), []]
           = (Inr (), cache_after (create_secret self r name val project env path opts now), tr)"
  using assms
  by (auto simp: create_secret_def Let_def simp del: invalidate.simps
        split: prod.splits sum.splits)

lemma update_secret_Inr:
  assumes "resolve_project project (project_id self) = Some pid"
    and "result (update_secret self r name project env path opts now) = Inr u"
  shows "\<exists>tr. invalidate (cache self) now pid (env_arg env) [or_else path (secret_path self), []]
           = (Inr (), cache_after (update_secret self r name project env path opts now), tr)"
  using assms
  by (auto simp: update_secret_def Let_def simp del: invalidate.simps
        split: prod.splits sum.splits)

text \<open>
  C1, as stated, fails in its last part: entries for other paths within the same project
  and environment are not left alone. A successful \<open>create_secret\<close> for the path
  \<^verbatim>\<open>/app\<close> removes the entry cached for the path \<^verbatim>\<open>/other\<close> of the same project and
  environment, because its key begins with the prefix of the empty path.
\<close>

theorem invalidation_scope_counterexample:
  "result (create_secret (example_facade two_paths_cache) example_remote ''NEW_SECRET'' ''v''
       (Some ''test_project'') None (Some ''/app'') no_opts 10) = Inr [(''secretKey'', ''NEW_SECRET'')]
   \<and> contains two_paths_cache 10 (cache_key ''test_project'' ''dev'' ''/other'' ''OTHER_SECRET'')
   \<and> \<not> contains (cache_after (create_secret (example_facade two_paths_cache) example_remote
         ''NEW_SECRET'' ''v'' (Some ''test_project'') None (Some ''/app'') no_opts 10)) 10
       (cache_key ''test_project'' ''dev'' ''/other'' ''OTHER_SECRET'')"
  by (simp add: eval_defs example_facade_def example_remote_def two_paths_cache_def)

text \<open>
  C1, amended. After a successful \<open>create_secret\<close> or \<open>update_secret\<close> at time \<open>now\<close>
  for project \<open>P\<close>, environment \<open>E\<close> and a path, no key that begins with the prefix of
  (\<open>P\<close>, \<open>E\<close>, path or default path) or of (\<open>P\<close>, \<open>E\<close>, empty path) is present in the
  cache at any later time, and every key that begins with neither prefix has the entry
  it had. In particular the entries of another project or another environment are
  untouched, when the names of the projects and environments hold no colon. (Every key
  of \<open>P\<close> and \<open>E\<close> begins with the prefix of the empty path, whatever its path.)
\<close>

theorem invalidation_scope:
  assumes "resolve_project project (project_id self) = Some pid"
  shows "(result (create_secret self r name val project env path copts now) = Inr d \<longrightarrow>
            (\<forall>k t. now \<le> t \<and> (prefix (LoadEnv_key pid (env_arg env) (or_else path (secret_path self))) k
                               \<or> prefix (LoadEnv_key pid (env_arg env) []) k)
               \<longrightarrow> \<not> contains (cache_after (create_secret self r name val project env path copts now)) t k)
          \<and> (\<forall>k. \<not> prefix (LoadEnv_key pid (env_arg env) (or_else path (secret_path self))) k
                   \<and> \<not> prefix (LoadEnv_key pid (env_arg env) []) k
               \<longrightarrow> map_of (links (cache_after (create_secret self r name val project env path copts now))) k
                     = map_of (links (cache self)) k)
          \<and> (\<forall>P' E' p' n. colon_free pid \<and> colon_free (env_arg env) \<and> colon_free P' \<and> colon_free E'
                   \<and> (P', E') \<noteq> (pid, env_arg env)
               \<longrightarrow> map_of (links (cache_after (create_secret self r name val project env path copts now)))
                       (cache_key P' E' p' n)
                     = map_of (links (cache self)) (cache_key P' E' p' n)))
       \<and> (result (update_secret self r name project env path uopts now) = Inr u \<longrightarrow>
            (\<forall>k t. now \<le> t \<and> (prefix (LoadEnv_key pid (env_arg env) (or_else path (secret_path self))) k
                               \<or> prefix (LoadEnv_key pid (env_arg env) []) k)
               \<longrightarrow> \<not> contains (cache_after (update_secret self r name project env path uopts now)) t k)
          \<and> (\<forall>k. \<not> prefix (LoadEnv_key pid (env_arg env) (or_else path (secret_path self))) k
                   \<and> \<not> prefix (LoadEnv_key pid (env_arg env) []) k
               \<longrightarrow> map_of (links (cache_after (update_secret self r name project env path uopts now))) k
                     = map_of (links (cache self)) k)
          \<and> (\<forall>P' E' p' n. colon_free pid \<and> colon_free (env_arg env) \<and> colon_free P' \<and> colon_free E'
                   \<and> (P', E') \<noteq> (pid, env_arg env)
               \<longrightarrow> map_of (links (cache_after (update_secret self r name project env path uopts now)))
                       (cache_key P' E' p' n)
                     = map_of (links (cache self)) (cache_key P' E' p' n)))"
proof (intro conjI impI)
  assume ok: "result (create_secret self r name val project env path copts now) = Inr d"
  from create_secret_Inr[OF assms ok] obtain tr
    where i: "invalidate (cache self) now pid (env_arg env) [or_else path (secret_path self), []]
           = (Inr (), cache_after (create_secret self r name val project env path copts now), tr)"
    by blast
  show "\<forall>k t. now \<le> t \<and> (prefix (LoadEnv_key pid (env_arg env) (or_else path (secret_path self))) k
                               \<or> prefix (LoadEnv_key pid (env_arg env) []) k)
               \<longrightarrow> \<not> contains (cache_after (create_secret self r name val project env path copts now)) t k"
    by (rule invalidate_scope(1)[OF i])
  show "\<forall>k. \<not> prefix (LoadEnv_key pid (env_arg env) (or_else path (secret_path self))) k
                   \<and> \<not> prefix (LoadEnv_key pid (env_arg env) []) k
               \<longrightarrow> map_of (links (cache_after (create_secret self r name val project env path copts now))) k
                     = map_of (links (cache self)) k"
    by (rule invalidate_scope(2)[OF i])
  show "\<forall>P' E' p' n. colon_free pid \<and> colon_free (env_arg env) \<and> colon_free P' \<and> colon_free E'
                   \<and> (P', E') \<noteq> (pid, env_arg env)
               \<longrightarrow> map_of (links (cache_after (create_secret self r name val project env path copts now)))
                       (cache_key P' E' p' n)
                     = map_of (links (cache self)) (cache_key P' E' p' n)"
    by (rule invalidate_scope(3)[OF i])
next
  assume ok: "result (update_secret self r name project env path uopts now) = Inr u"
  from update_secret_Inr[OF assms ok] obtain tr
    where i: "invalidate (cache self) now pid (env_arg env) [or_else path (secret_path self), []]
           = (Inr (), cache_after (update_secret self r name project env path uopts now), tr)"
    by blast
  show "\<forall>k t. now \<le> t \<and> (prefix (LoadEnv_key pid (env_arg env) (or_else path (secret_path self))) k
                               \<or> prefix (LoadEnv_key pid (env_arg env) []) k)
               \<longrightarrow> \<not> contains (cache_after (update_secret self r name project env path uopts now)) t k"
    by (rule invalidate_scope(1)[OF i])
  show "\<forall>k. \<not> prefix (LoadEnv_key pid (env_arg env) (or_else path (secret_path self))) k
                   \<and> \<not> prefix (LoadEnv_key pid (env_arg env) []) k
               \<longrightarrow> map_of (links (cache_after (update_secret self r name project env path uopts now))) k
                     = map_of (links (cache self)) k"
    by (rule invalidate_scope(2)[OF i])
  show "\<forall>P' E' p' n. colon_free pid \<and> colon_free (env_arg env) \<and> colon_free P' \<and> colon_free E'
                   \<and> (P', E') \<noteq> (pid, env_arg env)
               \<longrightarrow> map_of (links (cache_after (update_secret self r name project env path uopts now)))
                       (cache_key P' E' p' n)
                     = map_of (links (cache self)) (cache_key P' E' p' n)"
    by (rule invalidate_scope(3)[OF i])
qed

theorem invalidation_scope_witness:
  "resolve_project (Some ''test_project'') (project_id (example_facade two_paths_cache)) = Some ''test_project''
   \<and> result (create_secret (example_facade two_paths_cache) example_remote ''NEW_SECRET'' ''v''
        (Some ''test_project'') None (Some ''/app'') no_opts 10) = Inr [(''secretKey'', ''NEW_SECRET'')]
   \<and> result (update_secret (example_facade two_paths_cache) example_remote ''NEW_SECRET''
        (Some ''test_project'') None (Some ''/app'') no_update_opts 10) = Inr ()
   \<and> contains two_paths_cache 10 ''test_project:dev::TEST_SECRET''
   \<and> \<not> contains (cache_after (create_secret (example_facade two_paths_cache) example_remote
          ''NEW_SECRET'' ''v'' (Some ''test_project'') None (Some ''/app'') no_opts 10)) 10
        ''test_project:dev::TEST_SECRET''
   \<and> map_of (links (cache_after (create_secret (example_facade two_paths_cache) example_remote
          ''NEW_SECRET'' ''v'' (Some ''test_project'') None (Some ''/app'') no_opts 10)))
        (cache_key ''test_project'' ''prod'' ''/app'' ''APP_SECRET'') = Some (''prod_value'', 3600)
   \<and> \<not> contains (cache_after (update_secret (example_facade two_paths_cache) example_remote
          ''NEW_SECRET'' (Some ''test_project'') None (Some ''/app'') no_update_opts 10)) 10
        ''test_project:dev::TEST_SECRET''
   \<and> map_of (links (cache_after (update_secret (example_facade two_paths_cache) example_remote
          ''NEW_SECRET'' (Some ''test_project'') None (Some ''/app'') no_update_opts 10)))
        (cache_key ''test_project'' ''prod'' ''/app'' ''APP_SECRET'') = Some (''prod_value'', 3600)"
proof -
  let ?f = "example_facade two_paths_cache"
  let ?c = "create_secret ?f example_remote ''NEW_SECRET'' ''v'' (Some ''test_project'') None (Some ''/app'') no_opts 10"
  let ?u = "update_secret ?f example_remote ''NEW_SECRET'' (Some ''test_project'') None (Some ''/app'') no_update_opts 10"
  have rp: "resolve_project (Some ''test_project'') (project_id ?f) = Some ''test_project''"
    by (rule resolve_project_override)
  have rc: "result ?c = Inr [(''secretKey'', ''NEW_SECRET'')]"
    by (simp add: eval_defs example_facade_def example_remote_def two_paths_cache_def)
  have ru: "result ?u = Inr ()"
    by (simp add: eval_defs example_facade_def example_remote_def two_paths_cache_def no_update_opts_def)
  have b: "contains two_paths_cache 10 ''test_project:dev::TEST_SECRET''"
    by (simp add: contains_def two_paths_cache_def)
  have pre: "prefix (LoadEnv_key ''test_project'' (env_arg None) []) ''test_project:dev::TEST_SECRET''"
    by (simp add: LoadEnv_key_def env_arg_def)
  have cf: "colon_free ''test_project'' \<and> colon_free (env_arg None) \<and> colon_free ''test_project''
      \<and> colon_free ''prod'' \<and> (''test_project'', ''prod'') \<noteq> (''test_project'', env_arg None)"
    by (simp add: colon_free_def env_arg_def)
  have old: "map_of (links (cache ?f)) (cache_key ''test_project'' ''prod'' ''/app'' ''APP_SECRET'')
      = Some (''prod_value'', 3600)"
    by (simp add: example_facade_def two_paths_cache_def cache_key_def LoadEnv_key_def)
  note t = invalidation_scope[OF rp, of example_remote "''NEW_SECRET''" "''v''" None "Some ''/app''"
      no_opts 10 "[(''secretKey'', ''NEW_SECRET'')]" no_update_opts "()"]
  have c1: "\<not> contains (cache_after ?c) 10 ''test_project:dev::TEST_SECRET''"
    using t rc pre by blast
  have c2: "map_of (links (cache_after ?c)) (cache_key ''test_project'' ''prod'' ''/app'' ''APP_SECRET'')
      = map_of (links (cache ?f)) (cache_key ''test_project'' ''prod'' ''/app'' ''APP_SECRET'')"
    using t rc cf by blast
  have u1: "\<not> contains (cache_after ?u) 10 ''test_project:dev::TEST_SECRET''"
    using t ru pre by blast
  have u2: "map_of (links (cache_after ?u)) (cache_key ''test_project'' ''prod'' ''/app'' ''APP_SECRET'')
      = map_of (links (cache ?f)) (cache_key ''test_project'' ''prod'' ''/app'' ''APP_SECRET'')"
    using t ru cf by blast
  show ?thesis
    using rp rc ru b c1 c2 u1 u2 unfolding old by blast
qed

section \<open>Invalidation succeeds on the caches the facade builds\<close>

lemma wf_remove_key: "distinct (map fst xs) \<Longrightarrow> distinct (map fst (remove_key k xs))"
  by (simp add: remove_key_def distinct_map_filter)

lemma wf_shrink: "distinct (map fst xs) \<Longrightarrow> distinct (map fst (shrink m xs))"
  by (induction xs) auto

lemma fst_remove_key: "k \<notin> fst ` set (remove_key k xs)"
  by (auto simp: remove_key_def)

lemma wf_store: "distinct (map fst xs) \<Longrightarrow> distinct (map fst (remove_key k xs @ [(k, v, e)]))"
  using fst_remove_key[of k xs] by (simp add: wf_remove_key)

lemma setitem_wf:
  assumes "wf_cache c" and "setitem c now k v = (res, c')"
  shows "wf_cache c'"
proof -
  have f: "distinct (map fst (filter (live now) (links c)))"
    using assms(1) by (simp add: wf_cache_def distinct_map_filter)
  show ?thesis
    using assms(2) f wf_store[OF f] wf_store[OF wf_shrink[OF f]]
    by (auto simp: setitem_def Let_def expire_def wf_cache_def split: if_splits)
qed

lemma getitem_wf:
  assumes "wf_cache c" and "getitem c now k = (res, c')"
  shows "wf_cache c'"
  using assms wf_store[of "links c" k]
  by (auto simp: getitem_def Let_def wf_cache_def split: option.splits if_splits)

lemma delitem_wf:
  assumes "wf_cache c" and "delitem c now k = (res, c')"
  shows "wf_cache c'"
  using assms wf_remove_key[of "links c" k]
  by (auto simp: delitem_def Let_def wf_cache_def split: option.splits if_splits)

lemma delitem_listed:
  assumes "wf_cache c" and "k \<in> set (keys c now)"
  shows "delitem c now k = (Inr (), c\<lparr>links := remove_key k (links c)\<rparr>)"
proof -
  from assms(2) obtain v e where m: "(k, v, e) \<in> set (links c)" and l: "now < e"
    by (auto simp: keys_def live_def)
  have "map_of (links c) k = Some (v, e)"
    using assms(1) m by (simp add: wf_cache_def)
  then show ?thesis using l by (simp add: delitem_def)
qed

lemma keys_remove_key:
  "k' \<noteq> k \<Longrightarrow> k' \<in> set (keys c now) \<Longrightarrow> k' \<in> set (keys (c\<lparr>links := remove_key k (links c)\<rparr>) now)"
  by (auto simp: keys_def remove_key_def)

lemma del_keys_succeeds:
  "wf_cache c \<Longrightarrow> distinct ks \<Longrightarrow> set ks \<subseteq> set (keys c now) \<Longrightarrow>
     \<exists>c' tr. del_keys c now ks = (Inr (), c', tr) \<and> wf_cache c'"
proof (induction ks arbitrary: c)
  case Nil
  then show ?case by simp
next
  case (Cons k ks)
  let ?c1 = "c\<lparr>links := remove_key k (links c)\<rparr>"
  have d: "delitem c now k = (Inr (), ?c1)"
    using Cons.prems(1,3) by (simp add: delitem_listed)
  have w: "wf_cache ?c1"
    using delitem_wf[OF Cons.prems(1) d] .
  have s: "set ks \<subseteq> set (keys ?c1 now)"
  proof
    fix x assume x: "x \<in> set ks"
    then have "x \<noteq> k" and "x \<in> set (keys c now)" using Cons.prems(2,3) by auto
    then show "x \<in> set (keys ?c1 now)" by (rule keys_remove_key)
  qed
  from Cons.IH[OF w _ s] Cons.prems(2) obtain c' tr
    where "del_keys ?c1 now ks = (Inr (), c', tr)" and "wf_cache c'"
    by auto
  then show ?case using d by simp
qed

lemma keys_distinct: "wf_cache c \<Longrightarrow> distinct (keys c now)"
  by (simp add: wf_cache_def keys_def distinct_map_filter)

lemma invalidate_succeeds:
  "wf_cache c \<Longrightarrow> \<exists>c' tr. invalidate c now pid env ps = (Inr (), c', tr) \<and> wf_cache c'"
proof (induction ps arbitrary: c)
  case Nil
  then show ?case by simp
next
  case (Cons p ps)
  let ?ks = "filter (prefix (LoadEnv_key pid env p)) (keys c now)"
  have "distinct ?ks" using keys_distinct[OF Cons.prems] by simp
  from del_keys_succeeds[OF Cons.prems this, of now] obtain c1 t1
    where d: "del_keys c now ?ks = (Inr (), c1, t1)" and w: "wf_cache c1"
    by auto
  from Cons.IH[OF w] obtain c' tr
    where "invalidate c1 now pid env ps = (Inr (), c', tr)" and "wf_cache c'"
    by blast
  then show ?case using d by (simp add: Let_def)
qed

lemma create_secret_succeeds:
  assumes "resolve_project project (project_id self) = Some pid"
    and "wf_cache (cache self)"
    and "create_secret_by_name r (client self) name val pid (or_else path (secret_path self))
           (env_arg env) opts = Inr d"
  shows "result (create_secret self r name val project env path opts now) = Inr d"
    and "wf_cache (cache_after (create_secret self r name val project env path opts now))"
proof -
  from invalidate_succeeds[OF assms(2), of now pid "env_arg env" "[or_else path (secret_path self), []]"]
  obtain c' tr
    where i: "invalidate (cache self) now pid (env_arg env) [or_else path (secret_path self), []]
              = (Inr (), c', tr)" and w: "wf_cache c'"
    by blast
  show "result (create_secret self r name val project env path opts now) = Inr d"
    using assms(1,3) i by (simp add: create_secret_def Let_def del: invalidate.simps)
  show "wf_cache (cache_after (create_secret self r name val project env path opts now))"
    using assms(1,3) i w by (simp add: create_secret_def Let_def del: invalidate.simps)
qed

lemma update_secret_succeeds:
  assumes "resolve_project project (project_id self) = Some pid"
    and "wf_cache (cache self)"
    and "update_secret_by_name r (client self) name pid (or_else path (secret_path self)) (env_arg env)
           (opts\<lparr>secret_metadata := Some (list_or_empty (secret_metadata opts)),
                  tags_ids := Some (list_or_empty (tags_ids opts))\<rparr>) = Inr u"
  shows "result (update_secret self r name project env path opts now) = Inr ()"
    and "wf_cache (cache_after (update_secret self r name project env path opts now))"
proof -
  from invalidate_succeeds[OF assms(2), of now pid "env_arg env" "[or_else path (secret_path self), []]"]
  obtain c' tr
    where i: "invalidate (cache self) now pid (env_arg env) [or_else path (secret_path self), []]
              = (Inr (), c', tr)" and w: "wf_cache c'"
    by blast
  show "result (update_secret self r name project env path opts now) = Inr ()"
    using assms(1,3) i by (simp add: update_secret_def Let_def del: invalidate.simps)
  show "wf_cache (cache_after (update_secret self r name project env path opts now))"
    using assms(1,3) i w by (simp add: update_secret_def Let_def del: invalidate.simps)
qed

lemma get_wf:
  assumes "wf_cache (cache self)"
  shows "wf_cache (cache_after (get self r key project env path cid cs t0 t_read t1))"
proof (cases "resolve_project project (project_id self)")
  case None
  then show ?thesis using assms by (simp add: get_def)
next
  case (Some pid)
  let ?k = "cache_key pid (env_arg env) (path_arg path) key"
  let ?p = "if path_arg path \<noteq> [] then path_arg path else secret_path self"
  show ?thesis
  proof (cases "contains (cache self) t0 ?k")
    case True
    obtain res c' where g: "getitem (cache self) t_read ?k = (res, c')"
      by (cases "getitem (cache self) t_read ?k")
    show ?thesis
      using getitem_wf[OF assms g] Some True g by (simp add: get_def Let_def)
  next
    case False
    obtain sres tr where c: "choose_sdk self r cid cs = (sres, tr)"
      by (cases "choose_sdk self r cid cs")
    show ?thesis
    proof (cases sres)
      case (Inl e)
      then show ?thesis using Some False c assms by (simp add: get_def Let_def)
    next
      case (Inr s)
      show ?thesis
      proof (cases "get_secret_by_name r s key pid (env_arg env) ?p")
        case (Inl e)
        then show ?thesis using Some False c assms \<open>sres = Inr s\<close>
          by (simp add: get_def Let_def split del: if_split)
      next
        case f: (Inr secret)
        show ?thesis
        proof (cases "secret_value secret")
          case None
          then show ?thesis using Some False c assms \<open>sres = Inr s\<close> f
            by (simp add: get_def Let_def split del: if_split)
        next
          case sv: (Some v)
          obtain res c' where st: "setitem (cache self) t1 ?k v = (res, c')"
            by (cases "setitem (cache self) t1 ?k v")
          show ?thesis
            using setitem_wf[OF assms st] Some False c \<open>sres = Inr s\<close> f sv st
            by (cases res) (simp_all add: get_def Let_def split del: if_split)
        qed
      qed
    qed
  qed
qed

lemma create_secret_wf:
  assumes "wf_cache (cache self)"
  shows "wf_cache (cache_after (create_secret self r name val project env path opts now))"
proof (cases "resolve_project project (project_id self)")
  case None
  then show ?thesis using assms by (simp add: create_secret_def)
next
  case (Some pid)
  show ?thesis
  proof (cases "create_secret_by_name r (client self) name val pid (or_else path (secret_path self))
           (env_arg env) opts")
    case (Inl e)
    then show ?thesis using Some assms by (simp add: create_secret_def Let_def del: invalidate.simps)
  next
    case (Inr d)
    show ?thesis by (rule create_secret_succeeds(2)[OF Some assms Inr])
  qed
qed

lemma update_secret_wf:
  assumes "wf_cache (cache self)"
  shows "wf_cache (cache_after (update_secret self r name project env path opts now))"
proof (cases "resolve_project project (project_id self)")
  case None
  then show ?thesis using assms by (simp add: update_secret_def)
next
  case (Some pid)
  show ?thesis
  proof (cases "update_secret_by_name r (client self) name pid (or_else path (secret_path self)) (env_arg env)
           (opts\<lparr>secret_metadata := Some (list_or_empty (secret_metadata opts)),
                  tags_ids := Some (list_or_empty (tags_ids opts))\<rparr>)")
    case (Inl e)
    then show ?thesis using Some assms by (simp add: update_secret_def Let_def del: invalidate.simps)
  next
    case (Inr u)
    show ?thesis by (rule update_secret_succeeds(2)[OF Some assms Inr])
  qed
qed

lemma step_cache_wf:
  assumes "wf_cache (cache self)"
  shows "wf_cache (step_cache self r c)"
proof (cases c)
  case (CallGet key project env path cid cs t0 t_read t1)
  then show ?thesis using get_wf[OF assms] by simp
next
  case (CallGetAll project env path)
  then show ?thesis using assms by (simp add: get_all_def Let_def split: option.splits sum.splits)
next
  case (CallListSecrets project env path ex vw rc im tags)
  then show ?thesis using assms by (simp add: list_secrets_def Let_def split: option.splits)
next
  case (CallCreateSecret name val project env path opts now)
  then show ?thesis using create_secret_wf[OF assms] by simp
next
  case (CallUpdateSecret name project env path opts now)
  then show ?thesis using update_secret_wf[OF assms] by simp
next
  case (CallSecretByName name project env path)
  then show ?thesis using assms by (simp add: secret_by_name_def Let_def split: option.splits)
qed

text \<open>
  Every cache that a facade built by the constructor can reach stores each key once,
  so on every such cache a write that the remote service accepts is followed by an
  invalidation that raises nothing: the operation succeeds.
\<close>

lemma run_wf:
  "wf_cache (cache self) \<Longrightarrow> wf_cache (cache (run self calls))"
proof (induction calls arbitrary: self)
  case Nil
  then show ?case by simp
next
  case (Cons rc calls)
  obtain r c where rc: "rc = (r, c)" by (cases rc)
  have "wf_cache (cache (self\<lparr>cache := step_cache self r c\<rparr>))"
    using step_cache_wf[OF Cons.prems, of r c] by simp
  from Cons.IH[OF this] show ?case using rc by simp
qed

lemma init_wf:
  "init r environ cid cs host = Inr self \<Longrightarrow> wf_cache (cache self)"
  by (simp add: init_cache wf_cache_def new_cache_def)

end
